theory Spec2Isabelle
  imports Main "HOL-Library.Word" "HOL-Library.Char_ord" "HOL-Library.List_Lexorder"
begin

section \<open>Run-time types of environment items\<close>

text \<open>
  Core.hpp declares a single-inheritance hierarchy rooted at \<open>EnvironmentItem\<close>:
  \<open>FrameNode\<close>, \<open>Layer\<close> and \<open>Operator\<close> derive from it, \<open>CartesianMap\<close> from
  \<open>Layer\<close>, \<open>Map<D>\<close> from \<open>CartesianMap\<close>, and item types such as \<open>MLSSlope\<close>
  from \<open>Operator\<close>. A class is its name together with its base class, so that further
  item types (the header invites subclassing, e.g. of \<open>MLSSlope\<close>) are values of the
  same type.
\<close>

datatype cls = EnvironmentItem_class | Derived string cls

definition FrameNode_class :: cls where
  "FrameNode_class = Derived ''FrameNode'' EnvironmentItem_class"

definition Layer_class :: cls where
  "Layer_class = Derived ''Layer'' EnvironmentItem_class"

definition CartesianMap_class :: cls where
  "CartesianMap_class = Derived ''CartesianMap'' Layer_class"

definition Operator_class :: cls where
  "Operator_class = Derived ''Operator'' EnvironmentItem_class"

definition MLSSlope_class :: cls where
  "MLSSlope_class = Derived ''MLSSlope'' Operator_class"

text \<open>The classes an object of dynamic class \<open>c\<close> is an instance of, most derived first.\<close>

primrec superclasses :: "cls \<Rightarrow> cls list" where
  "superclasses EnvironmentItem_class = [EnvironmentItem_class]"
| "superclasses (Derived n b) = Derived n b # superclasses b"

definition is_a :: "cls \<Rightarrow> cls \<Rightarrow> bool" where
  "is_a c T = (T \<in> set (superclasses c))"

section \<open>Items and the object store\<close>

type_synonym ptr = nat

text \<open>
  The fields of \<open>class EnvironmentItem\<close>; \<open>env\<close> is the back pointer to the owning
  environment (\<open>None\<close> is the null pointer). \<open>dyn_class\<close> is the dynamic type that C++
  keeps with every polymorphic object. Derived classes add fields by record extension.
\<close>

record EnvironmentItem =
  ref_count :: "64 word"
  unique_id :: string
  label :: string
  env :: "ptr option"
  dyn_class :: cls

type_synonym 'm heap = "ptr \<Rightarrow> 'm EnvironmentItem_scheme option"

text \<open>
  \<open>dynamic_cast<T*>(p)\<close> and \<open>boost::dynamic_pointer_cast<T>(p)\<close>: the pointer itself
  when the object it points to is an instance of \<open>T\<close>, null otherwise. A pointer to no
  object is treated like the null pointer.
\<close>

definition dynamic_cast :: "cls \<Rightarrow> 'm heap \<Rightarrow> ptr \<Rightarrow> ptr option" where
  "dynamic_cast T h p =
     (case h p of
        None \<Rightarrow> None
      | Some obj \<Rightarrow> if is_a (dyn_class obj) T then Some p else None)"

section \<open>The id-to-item map\<close>

text \<open>
  \<open>Environment::items\<close> is a \<open>std::map<std::string, EnvironmentItem::Ptr>\<close>: its
  entries are kept, and iterated, in ascending order of the key. The model is the list of
  entries in iteration order. \<open>std::string\<close> compares bytewise and lexicographically,
  which is the order of \<open>char list\<close> here.
\<close>

type_synonym itemListType = "(string \<times> ptr) list"

definition std_map_inv :: "('k::linorder \<times> 'v) list \<Rightarrow> bool" where
  "std_map_inv m = sorted_wrt (<) (map fst m)"

text \<open>\<open>std::map::insert\<close>: an entry whose key is present already is left as it is.\<close>

fun map_insert :: "'k::linorder \<Rightarrow> 'v \<Rightarrow> ('k \<times> 'v) list \<Rightarrow> ('k \<times> 'v) list" where
  "map_insert k v [] = [(k, v)]"
| "map_insert k v ((k', v') # rest) =
     (if k < k' then (k, v) # (k', v') # rest
      else if k = k' then (k', v') # rest
      else (k', v') # map_insert k v rest)"

section \<open>Typed lookups of \<open>Environment\<close>\<close>

datatype exn = runtime_error string | bad_lexical_cast | AlreadyAttached | IdCollision

text \<open>The two failures of the singleton lookup, as the source words them.\<close>

definition Ambiguous :: exn where
  "Ambiguous = runtime_error ''multiple maps in this environment are of the specified type''"

definition NotFound :: exn where
  "NotFound = runtime_error ''no maps in this environment are of the specified type''"

text \<open>
  \<open>Environment::getItem<T>()\<close> (Core.hpp, lines 815-833). The loop carries \<open>result\<close>
  and throws at the second match.
\<close>

fun getItem_loop :: "cls \<Rightarrow> 'm heap \<Rightarrow> itemListType \<Rightarrow> ptr option \<Rightarrow> exn + ptr option" where
  "getItem_loop T h [] result = Inr result"
| "getItem_loop T h ((k, p) # rest) result =
     (case dynamic_cast T h p of
        Some m \<Rightarrow>
          (case result of
             Some r \<Rightarrow> Inl Ambiguous
           | None \<Rightarrow> getItem_loop T h rest (Some m))
      | None \<Rightarrow> getItem_loop T h rest result)"

definition getItem :: "cls \<Rightarrow> 'm heap \<Rightarrow> itemListType \<Rightarrow> exn + ptr" where
  "getItem T h its =
     (case getItem_loop T h its None of
        Inl e \<Rightarrow> Inl e
      | Inr None \<Rightarrow> Inl NotFound
      | Inr (Some r) \<Rightarrow> Inr r)"

text \<open>\<open>Environment::getItems<T>()\<close> (Core.hpp, lines 1012-1024).\<close>

fun getItems_loop :: "cls \<Rightarrow> 'm heap \<Rightarrow> itemListType \<Rightarrow> ptr list \<Rightarrow> ptr list" where
  "getItems_loop T h [] result = result"
| "getItems_loop T h ((k, p) # rest) result =
     (case dynamic_cast T h p of
        Some item \<Rightarrow> getItems_loop T h rest (result @ [item])
      | None \<Rightarrow> getItems_loop T h rest result)"

definition getItems :: "cls \<Rightarrow> 'm heap \<Rightarrow> itemListType \<Rightarrow> ptr list" where
  "getItems T h its = getItems_loop T h its []"

text \<open>The entries of the map whose item is an instance of \<open>T\<close>, in iteration order.\<close>

definition of_type :: "cls \<Rightarrow> 'm heap \<Rightarrow> itemListType \<Rightarrow> itemListType" where
  "of_type T h its = filter (\<lambda>kp. dynamic_cast T h (snd kp) \<noteq> None) its"

text \<open>
  A small environment for the examples: two frame nodes at addresses 1 and 2, the first
  with id \<open>/b\<close>, the second with id \<open>/a\<close>, entered into the map in that order.
\<close>

definition ex_frame :: "string \<Rightarrow> EnvironmentItem" where
  "ex_frame i = \<lparr>ref_count = 0, unique_id = i, label = [], env = Some 0,
                 dyn_class = FrameNode_class\<rparr>"

definition ex_heap :: "unit heap" where
  "ex_heap = (\<lambda>p. if p = 1 then Some (ex_frame ''/b'')
                   else if p = 2 then Some (ex_frame ''/a'') else None)"

definition ex_items :: itemListType where
  "ex_items = map_insert ''/a'' 2 (map_insert ''/b'' 1 [])"

section \<open>The one-argument overloads of \<open>Map::toMap\<close> and \<open>Map::fromMap\<close>\<close>

text \<open>
  \<open>CartesianMap::getFrameNode\<close>, \<open>FrameNode::getRoot\<close> and
  \<open>FrameNode::relativeTransform\<close> are declared in Core.hpp and defined elsewhere, and
  \<open>Transform * Vector3d\<close> is Eigen's; the four are parameters of the model. Each may
  throw. \<open>'t\<close> is the type of transforms, \<open>'v\<close> the type of points.
\<close>

record ('t, 'v) frame_calls =
  getFrameNode :: "ptr \<Rightarrow> exn + ptr"
  getRoot :: "ptr \<Rightarrow> exn + ptr"
  relativeTransform :: "ptr \<Rightarrow> ptr \<Rightarrow> exn + 't"
  times :: "'t \<Rightarrow> 'v \<Rightarrow> 'v"

text \<open>
  \<open>toMap(point, frame)\<close> (Core.hpp, lines 591-594):
  \<open>frame.relativeTransform(getFrameNode()) * point\<close>.
\<close>

definition toMap_frame :: "('t, 'v) frame_calls \<Rightarrow> ptr \<Rightarrow> 'v \<Rightarrow> ptr \<Rightarrow> exn + 'v" where
  "toMap_frame F this point frame =
     (case getFrameNode F this of
        Inl e \<Rightarrow> Inl e
      | Inr fn \<Rightarrow>
          (case relativeTransform F frame fn of
             Inl e \<Rightarrow> Inl e
           | Inr t \<Rightarrow> Inr (times F t point)))"

text \<open>
  \<open>fromMap(point, frame)\<close> (Core.hpp, lines 609-612):
  \<open>getFrameNode()->relativeTransform(&frame) * point\<close>.
\<close>

definition fromMap_frame :: "('t, 'v) frame_calls \<Rightarrow> ptr \<Rightarrow> 'v \<Rightarrow> ptr \<Rightarrow> exn + 'v" where
  "fromMap_frame F this point frame =
     (case getFrameNode F this of
        Inl e \<Rightarrow> Inl e
      | Inr fn \<Rightarrow>
          (case relativeTransform F fn frame of
             Inl e \<Rightarrow> Inl e
           | Inr t \<Rightarrow> Inr (times F t point)))"

text \<open>
  \<open>toMap(point)\<close> (Core.hpp, lines 582-585):
  \<open>return toMap(point, *getFrameNode()->getRoot());\<close>
\<close>

definition toMap :: "('t, 'v) frame_calls \<Rightarrow> ptr \<Rightarrow> 'v \<Rightarrow> exn + 'v" where
  "toMap F this point =
     (case getFrameNode F this of
        Inl e \<Rightarrow> Inl e
      | Inr fn \<Rightarrow>
          (case getRoot F fn of
             Inl e \<Rightarrow> Inl e
           | Inr root \<Rightarrow> toMap_frame F this point root))"

text \<open>
  \<open>fromMap(point)\<close> (Core.hpp, lines 600-603); the body is again
  \<open>return toMap(point, *getFrameNode()->getRoot());\<close>
\<close>

definition fromMap :: "('t, 'v) frame_calls \<Rightarrow> ptr \<Rightarrow> 'v \<Rightarrow> exn + 'v" where
  "fromMap F this point =
     (case getFrameNode F this of
        Inl e \<Rightarrow> Inl e
      | Inr fn \<Rightarrow>
          (case getRoot F fn of
             Inl e \<Rightarrow> Inl e
           | Inr root \<Rightarrow> toMap_frame F this point root))"

text \<open>
  An instance on a line: frame 0 is the root, frame 1 lies at offset 1 in the root, and
  the map at address 5 is attached to frame 1. Transforms are translations by an integer.
\<close>

definition ex_offset :: "ptr \<Rightarrow> int" where
  "ex_offset f = (if f = 1 then 1 else 0)"

definition ex_calls :: "(int, int) frame_calls" where
  "ex_calls = \<lparr>getFrameNode = (\<lambda>m. Inr 1),
               getRoot = (\<lambda>f. Inr 0),
               relativeTransform = (\<lambda>from to. Inr (ex_offset from - ex_offset to)),
               times = (\<lambda>t x. t + x)\<rparr>"

section \<open>The \<open>set\<close> method generated by \<open>ENVIRONMENT_ITEM\<close>\<close>

text \<open>
  \<open>ENVIRONMENT_ITEM(_classname)\<close> (Core.hpp, lines 25-42) gives the class
  \<open>
  void set( EnvironmentItem* other )
  { _classname* fn = dynamic_cast<_classname*>( other );
    if( fn ) { this->operator=( *fn ); } }
  \<close>
  \<open>C\<close> is \<open>_classname\<close>, \<open>assign\<close> its \<open>operator=\<close> (which may throw), \<open>this\<close> the
  receiver and \<open>other\<close> the argument, \<open>None\<close> for the null pointer. The call needs a
  receiver object; the store is returned as it is when there is none.
\<close>

definition set_item ::
  "('m EnvironmentItem_scheme \<Rightarrow> 'm EnvironmentItem_scheme \<Rightarrow> exn + 'm EnvironmentItem_scheme)
   \<Rightarrow> cls \<Rightarrow> ptr \<Rightarrow> ptr option \<Rightarrow> 'm heap \<Rightarrow> exn + 'm heap" where
  "set_item assign C this other h =
     (case (case other of None \<Rightarrow> None | Some q \<Rightarrow> dynamic_cast C h q) of
        None \<Rightarrow> Inr h
      | Some fn \<Rightarrow>
          (case (h this, h fn) of
             (Some t, Some f) \<Rightarrow>
               (case assign t f of
                  Inl e \<Rightarrow> Inl e
                | Inr t' \<Rightarrow> Inr (h(this \<mapsto> t')))
           | _ \<Rightarrow> Inr h))"

text \<open>
  \<open>class MLSSlope : public Operator\<close> (MLSSlope.hpp) with the two \<open>int\<close> fields of
  \<open>Operator\<close>, which the constructors of \<open>MLSSlope\<close> leave at their default 0; the
  \<open>double\<close> is held as its 64 bits, since it is only copied.
\<close>

record MLSSlope = EnvironmentItem +
  inputArity :: "32 word"
  outputArity :: "32 word"
  corrected_step_threshold :: "64 word"
  use_stddev :: bool

text \<open>
  The implicit \<open>MLSSlope::operator=\<close> copies member by member. The assignment of the
  \<open>EnvironmentItem\<close> part is defined outside Core.hpp; \<open>base\<close> stands for it.
\<close>

definition MLSSlope_assign ::
  "(MLSSlope \<Rightarrow> MLSSlope \<Rightarrow> MLSSlope) \<Rightarrow> MLSSlope \<Rightarrow> MLSSlope \<Rightarrow> exn + MLSSlope" where
  "MLSSlope_assign base t f =
     Inr ((base t f)\<lparr>inputArity := inputArity f, outputArity := outputArity f,
                     corrected_step_threshold := corrected_step_threshold f,
                     use_stddev := use_stddev f\<rparr>)"

text \<open>
  Two operators: at address 1 an \<open>MLSSlope\<close> built by the default constructor
  (threshold 0.25, \<open>use_stddev\<close> false), at address 2 an object of a class \<open>MySlope\<close>
  derived from \<open>MLSSlope\<close> with \<open>use_stddev\<close> true. The object at address 3 has the
  dynamic class \<open>FrameNode\<close>; the store holds one record type, and of this object only
  the class is read.
\<close>

definition ex_slope :: "cls \<Rightarrow> bool \<Rightarrow> MLSSlope" where
  "ex_slope c u = \<lparr>ref_count = 0, unique_id = [], label = [], env = None, dyn_class = c,
                   inputArity = 0, outputArity = 0,
                   corrected_step_threshold = 0x3FD0000000000000, use_stddev = u\<rparr>"

definition ex_slopes :: "unit MLSSlope_ext heap" where
  "ex_slopes =
     (\<lambda>p. if p = 1 then Some (ex_slope MLSSlope_class False)
          else if p = 2 then Some (ex_slope (Derived ''MySlope'' MLSSlope_class) True)
          else if p = 3 then Some (ex_slope FrameNode_class False)
          else None)"

section \<open>Layer metadata\<close>

text \<open>
  \<open>Layer::data_map\<close> is a \<open>std::map<std::string, HolderBase*>\<close>; each entry points to
  a \<open>Holder<T>\<close> for some type \<open>T\<close>. A holder is the type it was made for together with
  the value it holds; \<open>'ty\<close> is the type of C++ types, \<open>'v\<close> of their values.
\<close>

datatype ('ty, 'v) HolderBase = Holder 'ty 'v

record ('ty, 'v) Layer = EnvironmentItem +
  immutable :: bool
  dirty :: bool
  data_map :: "string \<Rightarrow> ('ty, 'v) HolderBase option"

definition TypeMismatch :: exn where
  "TypeMismatch = runtime_error ''data type mismatch.''"

text \<open>
  Modelled from the spec: \<open>HolderBase::get<T>()\<close>, called by \<open>getData\<close>, is defined in
  envire/core/Holder.hpp, which is not among the sources. The spec has \<open>get_data<T>\<close>
  fail with \<open>TypeMismatch\<close> when an existing holder reports a different type, and the
  comment on \<open>getData\<close> says it throws a runtime error if the data types do not match;
  the check inside \<open>getData\<close> itself is commented out, so the holder's \<open>get\<close> makes it.
\<close>

definition HolderBase_get :: "'ty \<Rightarrow> ('ty, 'v) HolderBase \<Rightarrow> exn + 'v" where
  "HolderBase_get T hb = (case hb of Holder U v \<Rightarrow> if U = T then Inr v else Inl TypeMismatch)"

text \<open>
  Modelled from the spec: the untyped \<open>Layer::hasData(key)\<close> is declared in Core.hpp
  (line 445) and defined in Core.cpp, which is not among the sources. Its comment says
  it returns true if an entry for the key exists.
\<close>

definition hasData :: "('ty, 'v, 'm) Layer_scheme \<Rightarrow> string \<Rightarrow> bool" where
  "hasData L type = (data_map L type \<noteq> None)"

text \<open>
  The non-const \<open>Layer::getData<T>(type)\<close> (Core.hpp, lines 463-485). \<open>dflt T\<close> is the
  value a default-constructed \<open>Holder<T>\<close> holds. The function returns a reference into
  the holder; the model returns the value, or the exception, and the layer. On a key
  that is absent \<open>data_map[type]\<close> would yield a null pointer; that cannot happen after
  the first statement, and the branch is there for totality only.
\<close>

definition getData ::
  "('ty \<Rightarrow> 'v) \<Rightarrow> 'ty \<Rightarrow> string \<Rightarrow> ('ty, 'v, 'm) Layer_scheme
   \<Rightarrow> (exn + 'v) \<times> ('ty, 'v, 'm) Layer_scheme" where
  "getData dflt T type L =
     (let L' = (if \<not> hasData L type
                then L\<lparr>data_map := (data_map L)(type \<mapsto> Holder T (dflt T))\<rparr>
                else L)
      in (case data_map L' type of
            Some hb \<Rightarrow> (HolderBase_get T hb, L')
          | None \<Rightarrow> (Inl (runtime_error ''null holder''), L')))"

text \<open>A layer with one entry, an \<open>int\<close> holder under the key \<open>count\<close>.\<close>

definition ex_layer :: "(string, int) Layer" where
  "ex_layer = \<lparr>ref_count = 0, unique_id = ''/grid'', label = [], env = None,
               dyn_class = Layer_class, immutable = False, dirty = False,
               data_map = (\<lambda>k. if k = ''count'' then Some (Holder ''int'' 7) else None)\<rparr>"

section \<open>The tool \<open>env_grid_to_mls\<close>\<close>

text \<open>
  How a run of the program ends: \<open>exit\<close> or a return from \<open>main\<close> with a status, or an
  exception that nothing catches (\<open>std::terminate\<close>, which aborts the process).
\<close>

datatype outcome = Exit int | Uncaught exn

text \<open>
  The calls \<open>main\<close> makes into boost and into the library, none of which is defined in
  the tool's file: parameters of the model, each of which may throw. \<open>'e\<close> is the state
  of the loaded environment together with the new operator. A lookup returns a smart
  pointer, null (\<open>None\<close>) when there is no such item (Core.hpp, lines 835-843);
  \<open>setInput\<close> and \<open>setOutput\<close> return a \<open>bool\<close>.
\<close>

record 'e tool_calls =
  lexical_cast_int :: "string \<Rightarrow> exn + 32 word"
  unserialize :: "string \<Rightarrow> exn + 'e"
  getItem_GridBase :: "'e \<Rightarrow> 32 word \<Rightarrow> exn + ptr option"
  getItem_MLSGrid :: "'e \<Rightarrow> 32 word \<Rightarrow> exn + ptr option"
  setInput :: "'e \<Rightarrow> ptr option \<Rightarrow> exn + bool \<times> 'e"
  setOutput :: "'e \<Rightarrow> ptr option \<Rightarrow> exn + bool \<times> 'e"
  updateOperators :: "'e \<Rightarrow> exn + 'e"
  serialize :: "'e \<Rightarrow> string \<Rightarrow> exn + unit"

text \<open>
  \<open>main\<close> (env_grid_to_mls.cpp, lines 18-40); \<open>argv\<close> includes the program name, and
  \<open>argc\<close> is its length. \<open>usage(1)\<close> prints and calls \<open>exit(1)\<close>. There is no
  \<open>try\<close> block, the pointers the lookups return are not tested, and the results of
  \<open>setInput\<close> and \<open>setOutput\<close> are dropped.
\<close>

definition main :: "'e tool_calls \<Rightarrow> string list \<Rightarrow> outcome" where
  "main T argv =
     (if length argv \<noteq> 4 then Exit 1
      else
        (case lexical_cast_int T (argv ! 2) of Inl x \<Rightarrow> Uncaught x | Inr grid_map_id \<Rightarrow>
        (case lexical_cast_int T (argv ! 3) of Inl x \<Rightarrow> Uncaught x | Inr mls_map_id \<Rightarrow>
        (case unserialize T (argv ! 1) of Inl x \<Rightarrow> Uncaught x | Inr e0 \<Rightarrow>
        (case getItem_GridBase T e0 grid_map_id of Inl x \<Rightarrow> Uncaught x | Inr input \<Rightarrow>
        (case getItem_MLSGrid T e0 mls_map_id of Inl x \<Rightarrow> Uncaught x | Inr output \<Rightarrow>
        (case setInput T e0 input of Inl x \<Rightarrow> Uncaught x | Inr (ok1, e1) \<Rightarrow>
        (case setOutput T e1 output of Inl x \<Rightarrow> Uncaught x | Inr (ok2, e2) \<Rightarrow>
        (case updateOperators T e2 of Inl x \<Rightarrow> Uncaught x | Inr e3 \<Rightarrow>
        (case serialize T e3 (argv ! 1) of Inl x \<Rightarrow> Uncaught x | Inr u \<Rightarrow>
           Exit 0))))))))))"

text \<open>
  Instances of the calls. In all of them the ids \<open>1\<close> and \<open>2\<close> parse and anything else
  is a \<open>bad_lexical_cast\<close>. In \<open>ex_good\<close> every call succeeds; in \<open>ex_broken\<close> every
  directory fails to load; in \<open>ex_null\<close> no call throws, but the lookups return null
  pointers and \<open>setInput\<close> and \<open>setOutput\<close> return false; in \<open>ex_failing n\<close> the
  \<open>n\<close>-th call of \<open>main\<close> (3 for the load, up to 9 for the writing) throws.
\<close>

definition ex_cast :: "string \<Rightarrow> exn + 32 word" where
  "ex_cast s = (if s = ''1'' then Inr 1 else if s = ''2'' then Inr 2 else Inl bad_lexical_cast)"

definition ex_good :: "unit tool_calls" where
  "ex_good = \<lparr>lexical_cast_int = ex_cast,
              unserialize = (\<lambda>p. Inr ()),
              getItem_GridBase = (\<lambda>e i. Inr (Some 1)),
              getItem_MLSGrid = (\<lambda>e i. Inr (Some 2)),
              setInput = (\<lambda>e l. Inr (True, e)),
              setOutput = (\<lambda>e l. Inr (True, e)),
              updateOperators = (\<lambda>e. Inr e),
              serialize = (\<lambda>e p. Inr ())\<rparr>"

definition ex_broken :: "unit tool_calls" where
  "ex_broken = ex_good\<lparr>unserialize := (\<lambda>p. Inl (runtime_error ''cannot load environment''))\<rparr>"

definition ex_null :: "unit tool_calls" where
  "ex_null = ex_good\<lparr>getItem_GridBase := (\<lambda>e i. Inr None),
                     getItem_MLSGrid := (\<lambda>e i. Inr None),
                     setInput := (\<lambda>e l. Inr (False, e)),
                     setOutput := (\<lambda>e l. Inr (False, e))\<rparr>"

definition ex_failing :: "nat \<Rightarrow> unit tool_calls" where
  "ex_failing n =
     \<lparr>lexical_cast_int = ex_cast,
      unserialize = (\<lambda>p. if n = 3 then Inl (runtime_error ''failed'') else Inr ()),
      getItem_GridBase = (\<lambda>e i. if n = 4 then Inl (runtime_error ''failed'') else Inr (Some 1)),
      getItem_MLSGrid = (\<lambda>e i. if n = 5 then Inl (runtime_error ''failed'') else Inr (Some 2)),
      setInput = (\<lambda>e l. if n = 6 then Inl (runtime_error ''failed'') else Inr (True, e)),
      setOutput = (\<lambda>e l. if n = 7 then Inl (runtime_error ''failed'') else Inr (True, e)),
      updateOperators = (\<lambda>e. if n = 8 then Inl (runtime_error ''failed'') else Inr e),
      serialize = (\<lambda>e p. if n = 9 then Inl (runtime_error ''failed'') else Inr ())\<rparr>"

section \<open>Attaching items: ids and frames\<close>

text \<open>
  The fields of \<open>class Environment\<close> (Core.hpp, lines 733-761). The maps keyed by
  pointers are only looked up here, so they are partial functions and lists of edges.
  \<open>emitted\<close> stands for the \<open>EventSource\<close>: the events handed to the handlers, oldest
  first.
\<close>

datatype Event = ItemAdded ptr | FrameAttachmentChanged ptr ptr

record Environment =
  last_id :: "64 word"
  items :: itemListType
  frameNodeTree :: "ptr \<Rightarrow> ptr option"
  layerTree :: "(ptr \<times> ptr) list"
  operatorGraphInput :: "(ptr \<times> ptr) list"
  operatorGraphOutput :: "(ptr \<times> ptr) list"
  cartesianMapGraph :: "ptr \<Rightarrow> ptr option"
  rootNode :: ptr
  envPrefix :: string
  emitted :: "Event list"

text \<open>
  A \<open>long\<close> written to a stream: its decimal digits, after a minus sign when it is
  negative.
\<close>

definition digit :: "nat \<Rightarrow> char" where
  "digit d = char_of (48 + d)"

fun decimal :: "nat \<Rightarrow> string" where
  "decimal n = (if n < 10 then [digit n] else decimal (n div 10) @ [digit (n mod 10)])"

declare decimal.simps [simp del]

definition show_long :: "64 word \<Rightarrow> string" where
  "show_long w =
     (if sint w < 0 then CHR ''-'' # decimal (nat (- sint w)) else decimal (nat (sint w)))"

definition ends_with_slash :: "string \<Rightarrow> bool" where
  "ends_with_slash s = (s \<noteq> [] \<and> last s = CHR ''/'')"

text \<open>
  Modelled from the spec: the search for a free number inside
  \<open>Environment::attachItem\<close>, which is defined in Core.cpp, not among the sources. The
  spec has a fresh, monotonically increasing numeric suffix appended to guarantee
  uniqueness: the counter is stepped, \<open>++last_id\<close>, until the id that ends in its
  decimal form is not taken. The counter is a \<open>long\<close> of 64 bits, so after \<open>2 ^ 64\<close>
  steps the search is back where it began: it is run with that much fuel, and \<open>None\<close>
  is a search that never ends.
\<close>

fun free_suffix :: "nat \<Rightarrow> (64 word \<Rightarrow> bool) \<Rightarrow> 64 word \<Rightarrow> 64 word option" where
  "free_suffix 0 taken n = None"
| "free_suffix (Suc fuel) taken n =
     (if taken (n + 1) then free_suffix fuel taken (n + 1) else Some (n + 1))"

text \<open>
  Modelled from the spec: \<open>Environment::attachItem(EnvironmentItem*)\<close> is declared in
  Core.hpp (line 772) and defined in Core.cpp, which is not among the sources. By the
  spec, attach fails with \<open>AlreadyAttached\<close> if the item is owned by an environment.
  The final id is the environment's prefix followed by the caller's id. If the caller's
  id ends in \<open>/\<close>, a fresh numeric suffix is appended to guarantee uniqueness; by the
  header (lines 66-69) this case "will not generate an exception, but will make the item
  unique by appending a number": the number is the first one after the counter whose id
  is free, and the counter, which the header calls \<open>last_id\<close>, "the last id given to an
  item", then holds it. Otherwise the id is taken verbatim and attachment fails with
  \<open>IdCollision\<close> if it is in the id-to-item map. The item is entered into the map under
  its final id, the environment becomes its owner, and \<open>ItemAdded\<close> is emitted.
  \<open>this\<close> is the address of the environment. The result is \<open>None\<close> when the call
  does not return. An item pointer to no object is outside the spec and is reported as
  an error of its own.
\<close>

definition attachItem ::
  "ptr \<Rightarrow> ptr \<Rightarrow> 'm heap \<times> Environment \<Rightarrow> (exn + 'm heap \<times> Environment) option" where
  "attachItem this item hE =
     (case hE of (h, E) \<Rightarrow>
        (case h item of
           None \<Rightarrow> Some (Inl (runtime_error ''no item''))
         | Some it \<Rightarrow>
             if env it \<noteq> None then Some (Inl AlreadyAttached)
             else if ends_with_slash (unique_id it) then
               (case free_suffix (2 ^ 64)
                       (\<lambda>c. envPrefix E @ unique_id it @ show_long c \<in> fst ` set (items E))
                       (last_id E) of
                  None \<Rightarrow> None
                | Some c \<Rightarrow>
                    Some (Inr (h(item \<mapsto> it\<lparr>unique_id := envPrefix E @ unique_id it @ show_long c,
                                            env := Some this\<rparr>),
                               E\<lparr>last_id := c,
                                 items := map_insert (envPrefix E @ unique_id it @ show_long c)
                                            item (items E),
                                 emitted := emitted E @ [ItemAdded item]\<rparr>)))
             else if envPrefix E @ unique_id it \<in> fst ` set (items E)
               then Some (Inl IdCollision)
               else Some (Inr (h(item \<mapsto> it\<lparr>unique_id := envPrefix E @ unique_id it,
                                             env := Some this\<rparr>),
                               E\<lparr>items := map_insert (envPrefix E @ unique_id it) item (items E),
                                 emitted := emitted E @ [ItemAdded item]\<rparr>))))"



text \<open>
  A run of calls of \<open>attachItem\<close>, one item after the other; it stops at the first call
  that fails or does not return.
\<close>

fun attachItems ::
  "ptr \<Rightarrow> ptr list \<Rightarrow> 'm heap \<times> Environment \<Rightarrow> (exn + 'm heap \<times> Environment) option" where
  "attachItems this [] hE = Some (Inr hE)"
| "attachItems this (p # ps) hE =
     (case attachItem this p hE of
        None \<Rightarrow> None
      | Some (Inl e) \<Rightarrow> Some (Inl e)
      | Some (Inr hE') \<Rightarrow> attachItems this ps hE')"

text \<open>
  An environment at address 0 with prefix \<open>/\<close> and three attached items: its root frame
  at address 9 under the id \<open>/root\<close>, a second frame at address 7 under \<open>/frame\<close>, and
  a layer at address 8 whose id \<open>/foo/1\<close> was given verbatim. Three items are not
  attached yet: two with the id \<open>foo/\<close> at addresses 1 and 2, and a cartesian map with
  the id \<open>grid\<close> at address 3.
\<close>

definition ex_item :: "string \<Rightarrow> ptr option \<Rightarrow> cls \<Rightarrow> EnvironmentItem" where
  "ex_item i e c = \<lparr>ref_count = 0, unique_id = i, label = [], env = e, dyn_class = c\<rparr>"

definition ex_objects :: "unit heap" where
  "ex_objects =
     (\<lambda>p. if p = 9 then Some (ex_item ''/root'' (Some 0) FrameNode_class)
          else if p = 7 then Some (ex_item ''/frame'' (Some 0) FrameNode_class)
          else if p = 8 then Some (ex_item ''/foo/1'' (Some 0) Layer_class)
          else if p = 1 \<or> p = 2 then Some (ex_item ''foo/'' None Layer_class)
          else if p = 3 then Some (ex_item ''grid'' None CartesianMap_class)
          else None)"

definition ex_env :: Environment where
  "ex_env = \<lparr>last_id = 0, items = [(''/foo/1'', 8), (''/frame'', 7), (''/root'', 9)],
             frameNodeTree = (\<lambda>f. if f = 7 then Some 9 else None),
             layerTree = [], operatorGraphInput = [], operatorGraphOutput = [],
             cartesianMapGraph = (\<lambda>m. None), rootNode = 9, envPrefix = ''/'',
             emitted = []\<rparr>"

text \<open>
  The same environment after the first item with the id \<open>foo/\<close>, then the map, then the
  second item with the id \<open>foo/\<close> have been attached. The number 1 is taken by the
  verbatim id, so the two items get 2 and 3.
\<close>

definition ex_objects1 :: "unit heap" where
  "ex_objects1 = ex_objects(1 \<mapsto> ex_item ''/foo/2'' (Some 0) Layer_class)"

definition ex_env1 :: Environment where
  "ex_env1 = ex_env\<lparr>last_id := 2,
                    items := [(''/foo/1'', 8), (''/foo/2'', 1), (''/frame'', 7), (''/root'', 9)],
                    emitted := [ItemAdded 1]\<rparr>"

definition ex_objects1g :: "unit heap" where
  "ex_objects1g = ex_objects1(3 \<mapsto> ex_item ''/grid'' (Some 0) CartesianMap_class)"

definition ex_env1g :: Environment where
  "ex_env1g = ex_env\<lparr>last_id := 2,
                     items := [(''/foo/1'', 8), (''/foo/2'', 1), (''/frame'', 7),
                               (''/grid'', 3), (''/root'', 9)],
                     emitted := [ItemAdded 1, ItemAdded 3]\<rparr>"

definition ex_objects2 :: "unit heap" where
  "ex_objects2 = ex_objects1g(2 \<mapsto> ex_item ''/foo/3'' (Some 0) Layer_class)"

definition ex_env2 :: Environment where
  "ex_env2 = ex_env\<lparr>last_id := 3,
                    items := [(''/foo/1'', 8), (''/foo/2'', 1), (''/foo/3'', 2), (''/frame'', 7),
                              (''/grid'', 3), (''/root'', 9)],
                    emitted := [ItemAdded 1, ItemAdded 3, ItemAdded 2]\<rparr>"




section \<open>Properties of the typed lookups\<close>

lemma dynamic_cast_Some: "dynamic_cast T h p = Some q \<Longrightarrow> q = p"
  by (simp add: dynamic_cast_def split: option.splits if_splits)

lemma getItems_loop_filter:
  "getItems_loop T h its acc = acc @ map snd (of_type T h its)"
proof (induction its arbitrary: acc)
  case Nil
  show ?case by (simp add: of_type_def)
next
  case (Cons kp its)
  obtain k p where kp: "kp = (k, p)" by (cases kp)
  show ?case
  proof (cases "dynamic_cast T h p")
    case None
    with Cons kp show ?thesis by (simp add: of_type_def)
  next
    case (Some q)
    then have "q = p" by (rule dynamic_cast_Some)
    with Some Cons kp show ?thesis by (simp add: of_type_def)
  qed
qed

lemma getItem_loop_filter:
  "getItem_loop T h its result =
     (case (result, map snd (of_type T h its)) of
        (None, []) \<Rightarrow> Inr None
      | (None, [p]) \<Rightarrow> Inr (Some p)
      | (None, p # q # ps) \<Rightarrow> Inl Ambiguous
      | (Some r, []) \<Rightarrow> Inr (Some r)
      | (Some r, p # ps) \<Rightarrow> Inl Ambiguous)"
proof (induction its arbitrary: result)
  case Nil
  show ?case by (simp add: of_type_def split: option.splits)
next
  case (Cons kp its)
  obtain k p where kp: "kp = (k, p)" by (cases kp)
  show ?case
  proof (cases "dynamic_cast T h p")
    case None
    with Cons kp show ?thesis by (simp add: of_type_def)
  next
    case (Some q)
    then have "q = p" by (rule dynamic_cast_Some)
    with Some Cons kp show ?thesis
      by (simp add: of_type_def split: option.splits list.splits)
  qed
qed

lemma sorted_wrt_filter_keys:
  "sorted_wrt (<) (map fst m) \<Longrightarrow> sorted_wrt (<) (map fst (filter P m))"
  by (induction m) auto

lemma map_insert_keys: "fst ` set (map_insert k v m) = insert k (fst ` set m)"
proof (induction m)
  case Nil
  show ?case by simp
next
  case (Cons a m)
  obtain k' v' where a: "a = (k', v')" by (cases a)
  show ?case using Cons.IH by (simp add: a insert_commute)
qed

lemma std_map_inv_insert: "std_map_inv m \<Longrightarrow> std_map_inv (map_insert k v m)"
proof (induction m)
  case Nil
  show ?case by (simp add: std_map_inv_def)
next
  case (Cons a m)
  obtain k' v' where a: "a = (k', v')" by (cases a)
  from Cons.prems have tl: "std_map_inv m" and hd: "\<forall>x \<in> fst ` set m. k' < x"
    by (auto simp: std_map_inv_def a)
  from Cons.IH [OF tl] have ih: "sorted_wrt (<) (map fst (map_insert k v m))"
    by (simp add: std_map_inv_def)
  show ?case
  proof (cases "k < k'")
    case True
    with Cons.prems a show ?thesis by (auto simp: std_map_inv_def)
  next
    case False
    show ?thesis
    proof (cases "k = k'")
      case True
      with Cons.prems a show ?thesis by (simp add: std_map_inv_def)
    next
      case ne: False
      with False have "k' < k" by simp
      with hd have "\<forall>x \<in> fst ` set (map_insert k v m). k' < x"
        by (simp only: map_insert_keys) simp
      with ih False ne a show ?thesis by (simp add: std_map_inv_def)
    qed
  qed
qed

text \<open>
  C3. \<open>getItem<T>()\<close> throws the "multiple maps" error when more than one item of the
  map is an instance of \<open>T\<close>, the "no maps" error when none is, and returns the single
  matching item otherwise.
\<close>

theorem getItem_singleton:
  "getItem T h its =
     (case map snd (of_type T h its) of
        [] \<Rightarrow> Inl NotFound
      | [p] \<Rightarrow> Inr p
      | p # q # ps \<Rightarrow> Inl Ambiguous)"
  by (simp add: getItem_def getItem_loop_filter split: list.splits)

text \<open>
  C6, as the claim states it, at a concrete input: the item at address 1 is entered
  first (id \<open>/b\<close>), the item at address 2 second (id \<open>/a\<close>); both are frame nodes.
  \<open>getItems<FrameNode>()\<close> returns the second before the first, so the result is not in
  attach order.
\<close>

theorem getItems_attach_order_counterexample:
  "getItems FrameNode_class ex_heap (map_insert ''/a'' 2 (map_insert ''/b'' 1 [])) = [2, 1]
   \<and> getItems FrameNode_class ex_heap (map_insert ''/a'' 2 (map_insert ''/b'' 1 [])) \<noteq> [1, 2]"
  by (simp add: getItems_def dynamic_cast_def ex_heap_def ex_frame_def is_a_def
      FrameNode_class_def)

text \<open>
  C6, amended. \<open>getItems<T>()\<close> returns exactly the items of the map that are instances
  of \<open>T\<close>, each once per entry, in ascending order of their ids (the iteration order of
  the id-to-item map).
\<close>

theorem getItems_id_order:
  assumes "std_map_inv its"
  shows "getItems T h its = map snd (of_type T h its)
         \<and> sorted_wrt (<) (map fst (of_type T h its))
         \<and> set (getItems T h its) = {p. \<exists>k. (k, p) \<in> set its \<and> dynamic_cast T h p = Some p}"
proof -
  have eq: "getItems T h its = map snd (of_type T h its)"
    by (simp add: getItems_def getItems_loop_filter)
  have srt: "sorted_wrt (<) (map fst (of_type T h its))"
    using assms unfolding std_map_inv_def of_type_def by (rule sorted_wrt_filter_keys)
  have "set (map snd (of_type T h its))
        = {p. \<exists>k. (k, p) \<in> set its \<and> dynamic_cast T h p = Some p}"
    by (auto simp: of_type_def image_iff dest: dynamic_cast_Some)
  with eq srt show ?thesis by simp
qed

theorem getItems_id_order_witness:
  "std_map_inv ex_items
   \<and> getItems FrameNode_class ex_heap ex_items = [2, 1]
   \<and> map fst (of_type FrameNode_class ex_heap ex_items) = [''/a'', ''/b'']"
proof -
  have inv: "std_map_inv ex_items"
    by (simp add: ex_items_def std_map_inv_def)
  have ot: "of_type FrameNode_class ex_heap ex_items = [(''/a'', 2), (''/b'', 1)]"
    by (simp add: of_type_def ex_items_def dynamic_cast_def ex_heap_def ex_frame_def
        is_a_def FrameNode_class_def)
  from getItems_id_order [OF inv, of FrameNode_class ex_heap] inv ot
  show ?thesis by simp
qed

section \<open>The one-argument point conversions\<close>

text \<open>
  C9. \<open>fromMap(p)\<close> and \<open>toMap(p)\<close> return the same value, namely
  \<open>toMap(p, root)\<close> for the root of the map's frame. So \<open>fromMap(p)\<close> does not undo
  \<open>toMap(p)\<close>: in the instance, where the two-argument pair is inverse, the point 10
  goes to 9 under \<open>toMap\<close> and then to 8, not back to 10, under \<open>fromMap\<close>.
\<close>

theorem fromMap_is_toMap:
  "fromMap F m p = toMap F m p
   \<and> toMap F m p =
       (case getFrameNode F m of
          Inl e \<Rightarrow> Inl e
        | Inr fn \<Rightarrow> (case getRoot F fn of Inl e \<Rightarrow> Inl e | Inr r \<Rightarrow> toMap_frame F m p r))
   \<and> toMap ex_calls 5 10 = Inr 9
   \<and> fromMap ex_calls 5 9 = Inr 8
   \<and> fromMap_frame ex_calls 5 9 0 = Inr 10"
  by (simp add: fromMap_def toMap_def toMap_frame_def fromMap_frame_def ex_calls_def
      ex_offset_def)

section \<open>The generated \<open>set\<close>\<close>

text \<open>
  C10, as the claim states it, at a concrete input: the receiver is an \<open>MLSSlope\<close>, the
  argument an object whose dynamic class \<open>MySlope\<close> is not \<open>MLSSlope\<close> but derives
  from it. The cast succeeds and the receiver is assigned: its \<open>use_stddev\<close> changes
  from false to true.
\<close>

theorem set_item_derived_counterexample:
  "dyn_class (ex_slope (Derived ''MySlope'' MLSSlope_class) True) \<noteq> MLSSlope_class
   \<and> map_option use_stddev (ex_slopes 1) = Some False
   \<and> (case set_item (MLSSlope_assign (\<lambda>t f. t)) MLSSlope_class 1 (Some 2) ex_slopes of
         Inl e \<Rightarrow> None
       | Inr h' \<Rightarrow> map_option use_stddev (h' 1)) = Some True"
  by (simp add: set_item_def dynamic_cast_def ex_slopes_def ex_slope_def is_a_def
      MLSSlope_class_def MLSSlope_assign_def)

text \<open>
  C10, amended. When \<open>other\<close> is null or points to an object that is not an instance of
  the item's class (its dynamic class is neither that class nor derived from it),
  \<open>set(other)\<close> returns normally and leaves the receiver, and every other object,
  unchanged.
\<close>

theorem set_item_not_instance:
  assumes "\<forall>q f. other = Some q \<and> h q = Some f \<longrightarrow> \<not> is_a (dyn_class f) C"
  shows "set_item assign C this other h = Inr h"
proof (cases other)
  case None
  then show ?thesis by (simp add: set_item_def)
next
  case (Some q)
  with assms have "dynamic_cast C h q = None"
    by (cases "h q") (simp_all add: dynamic_cast_def)
  with Some show ?thesis by (simp add: set_item_def)
qed

theorem set_item_not_instance_witness:
  "ex_slopes 3 = Some (ex_slope FrameNode_class False)
   \<and> \<not> is_a FrameNode_class MLSSlope_class
   \<and> set_item (MLSSlope_assign (\<lambda>t f. t)) MLSSlope_class 1 (Some 3) ex_slopes = Inr ex_slopes"
proof -
  have obj: "ex_slopes 3 = Some (ex_slope FrameNode_class False)"
    by (simp add: ex_slopes_def)
  have no: "\<not> is_a FrameNode_class MLSSlope_class"
    by (simp add: is_a_def MLSSlope_class_def FrameNode_class_def Operator_class_def)
  from obj no
  have hyp: "\<forall>q f. Some (3::nat) = Some q \<and> ex_slopes q = Some f
               \<longrightarrow> \<not> is_a (dyn_class f) MLSSlope_class"
    by (auto simp: ex_slope_def)
  from set_item_not_instance [OF hyp] obj no show ?thesis by blast
qed

section \<open>Layer metadata\<close>

text \<open>
  C2. The non-const \<open>getData<T>(key)\<close>: when the layer has no entry for the key, a
  default-constructed holder for \<open>T\<close> is entered under the key and its value returned;
  when the entry's holder was made for a type other than \<open>T\<close>, the call fails with the
  type-mismatch error and the layer is as before. (A holder of type \<open>T\<close> yields its value.)
\<close>

theorem getData_creates_or_checks:
  "(data_map L key = None \<longrightarrow>
      getData dflt T key L
        = (Inr (dflt T), L\<lparr>data_map := (data_map L)(key \<mapsto> Holder T (dflt T))\<rparr>))
   \<and> (\<forall>U v. data_map L key = Some (Holder U v) \<and> U \<noteq> T \<longrightarrow>
         getData dflt T key L = (Inl TypeMismatch, L))
   \<and> (\<forall>v. data_map L key = Some (Holder T v) \<longrightarrow> getData dflt T key L = (Inr v, L))"
  by (simp add: getData_def hasData_def HolderBase_get_def)

theorem getData_creates_or_checks_witness:
  "data_map ex_layer ''scale'' = None
   \<and> fst (getData (\<lambda>t. 0) ''int'' ''scale'' ex_layer) = Inr 0
   \<and> data_map (snd (getData (\<lambda>t. 0) ''int'' ''scale'' ex_layer)) ''scale''
       = Some (Holder ''int'' 0)
   \<and> data_map ex_layer ''count'' = Some (Holder ''int'' 7) \<and> ''int'' \<noteq> ''double''
   \<and> getData (\<lambda>t. 0) ''double'' ''count'' ex_layer = (Inl TypeMismatch, ex_layer)
   \<and> getData (\<lambda>t. 0) ''int'' ''count'' ex_layer = (Inr 7, ex_layer)"
proof -
  have miss: "data_map ex_layer ''scale'' = None"
    and hit: "data_map ex_layer ''count'' = Some (Holder ''int'' 7)"
    and ne: "''int'' \<noteq> ''double''"
    by (simp_all add: ex_layer_def)
  from getData_creates_or_checks [of ex_layer "''scale''" "\<lambda>t. 0" "''int''"] miss
  have a: "getData (\<lambda>t. 0) ''int'' ''scale'' ex_layer
           = (Inr 0, ex_layer\<lparr>data_map := (data_map ex_layer)(''scale'' \<mapsto> Holder ''int'' 0)\<rparr>)"
    by blast
  from getData_creates_or_checks [of ex_layer "''count''" "\<lambda>t. 0" "''double''"] hit ne
  have b: "getData (\<lambda>t. 0) ''double'' ''count'' ex_layer = (Inl TypeMismatch, ex_layer)"
    by blast
  from getData_creates_or_checks [of ex_layer "''count''" "\<lambda>t. 0" "''int''"] hit
  have c: "getData (\<lambda>t. 0) ''int'' ''count'' ex_layer = (Inr 7, ex_layer)"
    by blast
  from a b c miss hit ne show ?thesis by simp
qed

section \<open>The tool \<open>env_grid_to_mls\<close>\<close>

lemma main_outcomes: "main T argv = Exit c \<Longrightarrow> c = 0 \<or> c = 1"
  by (auto simp: main_def split: if_splits sum.splits)

text \<open>
  C8, as the claim states it, at a concrete input: four arguments with well-formed ids,
  and an environment directory that fails to load. The run does not end with status 2:
  the exception leaves \<open>main\<close> uncaught.
\<close>

theorem main_environment_error_counterexample:
  "main ex_broken [''env_grid_to_mls'', ''dir'', ''1'', ''2'']
     = Uncaught (runtime_error ''cannot load environment'')
   \<and> main ex_broken [''env_grid_to_mls'', ''dir'', ''1'', ''2''] \<noteq> Exit 2"
  by (simp add: main_def ex_broken_def ex_good_def ex_cast_def)

text \<open>
  C8, amended. The tool ends with status 1 when the number of arguments is not three,
  and with status 0 when none of its nine calls throws, whatever the lookups and
  \<open>setInput\<close> and \<open>setOutput\<close> return. When a call throws, all calls before it having
  returned, the run ends with that exception uncaught: the two conversions of the id
  arguments, the load, the two lookups, \<open>setInput\<close>, \<open>setOutput\<close>,
  \<open>updateOperators\<close> and \<open>serialize\<close>, in this order. No run ends with status 2.
\<close>

theorem main_exit_codes:
  "(length argv \<noteq> 4 \<longrightarrow> main T argv = Exit 1)
   \<and> (length argv = 4 \<and> lexical_cast_int T (argv ! 2) = Inl x \<longrightarrow> main T argv = Uncaught x)
   \<and> (length argv = 4 \<and> lexical_cast_int T (argv ! 2) = Inr g
        \<and> lexical_cast_int T (argv ! 3) = Inl x
      \<longrightarrow> main T argv = Uncaught x)
   \<and> (length argv = 4 \<and> lexical_cast_int T (argv ! 2) = Inr g
        \<and> lexical_cast_int T (argv ! 3) = Inr m \<and> unserialize T (argv ! 1) = Inl x
      \<longrightarrow> main T argv = Uncaught x)
   \<and> (length argv = 4 \<and> lexical_cast_int T (argv ! 2) = Inr g
        \<and> lexical_cast_int T (argv ! 3) = Inr m \<and> unserialize T (argv ! 1) = Inr e0
        \<and> getItem_GridBase T e0 g = Inl x
      \<longrightarrow> main T argv = Uncaught x)
   \<and> (length argv = 4 \<and> lexical_cast_int T (argv ! 2) = Inr g
        \<and> lexical_cast_int T (argv ! 3) = Inr m \<and> unserialize T (argv ! 1) = Inr e0
        \<and> getItem_GridBase T e0 g = Inr i \<and> getItem_MLSGrid T e0 m = Inl x
      \<longrightarrow> main T argv = Uncaught x)
   \<and> (length argv = 4 \<and> lexical_cast_int T (argv ! 2) = Inr g
        \<and> lexical_cast_int T (argv ! 3) = Inr m \<and> unserialize T (argv ! 1) = Inr e0
        \<and> getItem_GridBase T e0 g = Inr i \<and> getItem_MLSGrid T e0 m = Inr out
        \<and> setInput T e0 i = Inl x
      \<longrightarrow> main T argv = Uncaught x)
   \<and> (length argv = 4 \<and> lexical_cast_int T (argv ! 2) = Inr g
        \<and> lexical_cast_int T (argv ! 3) = Inr m \<and> unserialize T (argv ! 1) = Inr e0
        \<and> getItem_GridBase T e0 g = Inr i \<and> getItem_MLSGrid T e0 m = Inr out
        \<and> setInput T e0 i = Inr (b1, e1) \<and> setOutput T e1 out = Inl x
      \<longrightarrow> main T argv = Uncaught x)
   \<and> (length argv = 4 \<and> lexical_cast_int T (argv ! 2) = Inr g
        \<and> lexical_cast_int T (argv ! 3) = Inr m \<and> unserialize T (argv ! 1) = Inr e0
        \<and> getItem_GridBase T e0 g = Inr i \<and> getItem_MLSGrid T e0 m = Inr out
        \<and> setInput T e0 i = Inr (b1, e1) \<and> setOutput T e1 out = Inr (b2, e2)
        \<and> updateOperators T e2 = Inl x
      \<longrightarrow> main T argv = Uncaught x)
   \<and> (length argv = 4 \<and> lexical_cast_int T (argv ! 2) = Inr g
        \<and> lexical_cast_int T (argv ! 3) = Inr m \<and> unserialize T (argv ! 1) = Inr e0
        \<and> getItem_GridBase T e0 g = Inr i \<and> getItem_MLSGrid T e0 m = Inr out
        \<and> setInput T e0 i = Inr (b1, e1) \<and> setOutput T e1 out = Inr (b2, e2)
        \<and> updateOperators T e2 = Inr e3 \<and> serialize T e3 (argv ! 1) = Inl x
      \<longrightarrow> main T argv = Uncaught x)
   \<and> (length argv = 4 \<and> lexical_cast_int T (argv ! 2) = Inr g
        \<and> lexical_cast_int T (argv ! 3) = Inr m \<and> unserialize T (argv ! 1) = Inr e0
        \<and> getItem_GridBase T e0 g = Inr i \<and> getItem_MLSGrid T e0 m = Inr out
        \<and> setInput T e0 i = Inr (b1, e1) \<and> setOutput T e1 out = Inr (b2, e2)
        \<and> updateOperators T e2 = Inr e3 \<and> serialize T e3 (argv ! 1) = Inr u
      \<longrightarrow> main T argv = Exit 0)
   \<and> (main T argv = Exit c \<longrightarrow> c = 0 \<or> c = 1)
   \<and> main T argv \<noteq> Exit 2"
proof -
  have codes: "main T argv = Exit c \<longrightarrow> c = 0 \<or> c = 1"
    by (blast dest: main_outcomes)
  have "main T argv \<noteq> Exit 2"
    by (auto dest: main_outcomes)
  with codes show ?thesis by (simp add: main_def)
qed

theorem main_exit_codes_witness:
  "main ex_good [''env_grid_to_mls'', ''dir''] = Exit 1
   \<and> main ex_good [''env_grid_to_mls'', ''dir'', ''one'', ''2''] = Uncaught bad_lexical_cast
   \<and> main ex_good [''env_grid_to_mls'', ''dir'', ''1'', ''two''] = Uncaught bad_lexical_cast
   \<and> main (ex_failing 3) [''env_grid_to_mls'', ''dir'', ''1'', ''2'']
       = Uncaught (runtime_error ''failed'')
   \<and> main (ex_failing 4) [''env_grid_to_mls'', ''dir'', ''1'', ''2'']
       = Uncaught (runtime_error ''failed'')
   \<and> main (ex_failing 5) [''env_grid_to_mls'', ''dir'', ''1'', ''2'']
       = Uncaught (runtime_error ''failed'')
   \<and> main (ex_failing 6) [''env_grid_to_mls'', ''dir'', ''1'', ''2'']
       = Uncaught (runtime_error ''failed'')
   \<and> main (ex_failing 7) [''env_grid_to_mls'', ''dir'', ''1'', ''2'']
       = Uncaught (runtime_error ''failed'')
   \<and> main (ex_failing 8) [''env_grid_to_mls'', ''dir'', ''1'', ''2'']
       = Uncaught (runtime_error ''failed'')
   \<and> main (ex_failing 9) [''env_grid_to_mls'', ''dir'', ''1'', ''2'']
       = Uncaught (runtime_error ''failed'')
   \<and> main ex_good [''env_grid_to_mls'', ''dir'', ''1'', ''2''] = Exit 0
   \<and> main ex_null [''env_grid_to_mls'', ''dir'', ''1'', ''2''] = Exit 0"
proof -
  let ?ok = "[''env_grid_to_mls'', ''dir'', ''1'', ''2'']"
  let ?err = "runtime_error ''failed''"
  have c0: "main ex_good [''env_grid_to_mls'', ''dir''] = Exit 1"
    using main_exit_codes [where argv = "[''env_grid_to_mls'', ''dir'']" and T = ex_good]
    by simp
  have c1: "main ex_good [''env_grid_to_mls'', ''dir'', ''one'', ''2'']
            = Uncaught bad_lexical_cast"
    using main_exit_codes [where argv = "[''env_grid_to_mls'', ''dir'', ''one'', ''2'']"
        and T = ex_good and x = bad_lexical_cast]
    by (simp add: ex_good_def ex_cast_def)
  have c2: "main ex_good [''env_grid_to_mls'', ''dir'', ''1'', ''two'']
            = Uncaught bad_lexical_cast"
    using main_exit_codes [where argv = "[''env_grid_to_mls'', ''dir'', ''1'', ''two'']"
        and T = ex_good and x = bad_lexical_cast and g = 1]
    by (simp add: ex_good_def ex_cast_def)
  have c3: "main (ex_failing 3) ?ok = Uncaught ?err"
    using main_exit_codes [where argv = ?ok and T = "ex_failing 3" and x = ?err
        and g = 1 and m = 2]
    by (simp add: ex_failing_def ex_cast_def)
  have c4: "main (ex_failing 4) ?ok = Uncaught ?err"
    using main_exit_codes [where argv = ?ok and T = "ex_failing 4" and x = ?err
        and g = 1 and m = 2 and ?e0.0 = "()"]
    by (simp add: ex_failing_def ex_cast_def)
  have c5: "main (ex_failing 5) ?ok = Uncaught ?err"
    using main_exit_codes [where argv = ?ok and T = "ex_failing 5" and x = ?err
        and g = 1 and m = 2 and ?e0.0 = "()" and i = "Some 1"]
    by (simp add: ex_failing_def ex_cast_def)
  have c6: "main (ex_failing 6) ?ok = Uncaught ?err"
    using main_exit_codes [where argv = ?ok and T = "ex_failing 6" and x = ?err
        and g = 1 and m = 2 and ?e0.0 = "()" and i = "Some 1" and out = "Some 2"]
    by (simp add: ex_failing_def ex_cast_def)
  have c7: "main (ex_failing 7) ?ok = Uncaught ?err"
    using main_exit_codes [where argv = ?ok and T = "ex_failing 7" and x = ?err
        and g = 1 and m = 2 and ?e0.0 = "()" and i = "Some 1" and out = "Some 2"
        and ?b1.0 = True and ?e1.0 = "()"]
    by (simp add: ex_failing_def ex_cast_def)
  have c8: "main (ex_failing 8) ?ok = Uncaught ?err"
    using main_exit_codes [where argv = ?ok and T = "ex_failing 8" and x = ?err
        and g = 1 and m = 2 and ?e0.0 = "()" and i = "Some 1" and out = "Some 2"
        and ?b1.0 = True and ?e1.0 = "()" and ?b2.0 = True and ?e2.0 = "()"]
    by (simp add: ex_failing_def ex_cast_def)
  have c9: "main (ex_failing 9) ?ok = Uncaught ?err"
    using main_exit_codes [where argv = ?ok and T = "ex_failing 9" and x = ?err
        and g = 1 and m = 2 and ?e0.0 = "()" and i = "Some 1" and out = "Some 2"
        and ?b1.0 = True and ?e1.0 = "()" and ?b2.0 = True and ?e2.0 = "()"
        and ?e3.0 = "()"]
    by (simp add: ex_failing_def ex_cast_def)
  have good: "main ex_good ?ok = Exit 0"
    using main_exit_codes [where argv = ?ok and T = ex_good
        and g = 1 and m = 2 and ?e0.0 = "()" and i = "Some 1" and out = "Some 2"
        and ?b1.0 = True and ?e1.0 = "()" and ?b2.0 = True and ?e2.0 = "()"
        and ?e3.0 = "()" and u = "()"]
    by (simp add: ex_good_def ex_cast_def)
  have null: "main ex_null ?ok = Exit 0"
    using main_exit_codes [where argv = ?ok and T = ex_null
        and g = 1 and m = 2 and ?e0.0 = "()" and i = None and out = None
        and ?b1.0 = False and ?e1.0 = "()" and ?b2.0 = False and ?e2.0 = "()"
        and ?e3.0 = "()" and u = "()"]
    by (simp add: ex_null_def ex_good_def ex_cast_def)
  from c0 c1 c2 c3 c4 c5 c6 c7 c8 c9 good null show ?thesis by simp
qed

section \<open>Attaching items\<close>

lemma of_char_digit: "d < 10 \<Longrightarrow> of_char (digit d) = 48 + d"
  by (simp add: digit_def)

lemma digit_inj: "a < 10 \<Longrightarrow> b < 10 \<Longrightarrow> digit a = digit b \<Longrightarrow> a = b"
proof -
  assume a: "a < 10" and b: "b < 10" and eq: "digit a = digit b"
  from eq have "(of_char (digit a) :: nat) = of_char (digit b)" by simp
  with a b show "a = b" by (simp add: of_char_digit)
qed

lemma decimal_nonempty: "decimal n \<noteq> []"
  by (subst decimal.simps) simp

lemma decimal_last: "last (decimal n) = digit (n mod 10)"
  by (subst decimal.simps) simp

lemma decimal_butlast: "butlast (decimal n) = (if n < 10 then [] else decimal (n div 10))"
  by (subst decimal.simps) (simp add: butlast_append)

lemma decimal_chars: "c \<in> set (decimal n) \<Longrightarrow> (48::nat) \<le> of_char c"
proof (induction n rule: decimal.induct)
  case (1 n)
  show ?case
  proof (cases "n < 10")
    case True
    with "1.prems" have "c = digit n" by (subst (asm) decimal.simps) simp
    with True show ?thesis by (simp add: of_char_digit)
  next
    case False
    with "1.prems" have "c \<in> set (decimal (n div 10)) \<or> c = digit (n mod 10)"
      by (subst (asm) decimal.simps) auto
    then show ?thesis
    proof
      assume "c \<in> set (decimal (n div 10))"
      with False "1.IH" show ?thesis by simp
    next
      assume "c = digit (n mod 10)"
      then show ?thesis by (simp add: of_char_digit)
    qed
  qed
qed

lemma decimal_inj: "decimal a = decimal b \<Longrightarrow> a = b"
proof (induction a arbitrary: b rule: decimal.induct)
  case (1 n)
  from "1.prems" have "last (decimal n) = last (decimal b)" by simp
  then have "digit (n mod 10) = digit (b mod 10)" by (simp add: decimal_last)
  then have m: "n mod 10 = b mod 10" by (rule digit_inj [rotated 2]) simp_all
  from "1.prems" have "butlast (decimal n) = butlast (decimal b)" by simp
  then have bl: "(if n < 10 then [] else decimal (n div 10))
                 = (if b < 10 then [] else decimal (b div 10))"
    by (simp only: decimal_butlast)
  show ?case
  proof (cases "n < 10")
    case True
    with bl have "b < 10" using decimal_nonempty [of "b div 10"] by (auto split: if_splits)
    with True m show ?thesis by simp
  next
    case False
    with bl have nb: "\<not> b < 10" using decimal_nonempty [of "n div 10"] by (auto split: if_splits)
    with False bl have "decimal (n div 10) = decimal (b div 10)" by simp
    with False "1.IH" have "n div 10 = b div 10" by simp
    with m show ?thesis by (metis div_mult_mod_eq)
  qed
qed

lemma decimal_no_minus: "decimal n \<noteq> CHR ''-'' # s"
proof
  assume "decimal n = CHR ''-'' # s"
  then have "CHR ''-'' \<in> set (decimal n)" by simp
  then have "(48::nat) \<le> of_char CHR ''-''" by (rule decimal_chars)
  then show False by simp
qed

lemma show_long_inj: "show_long a = show_long b \<Longrightarrow> a = b"
proof -
  assume eq: "show_long a = show_long b"
  have "sint a = sint b"
  proof (cases "sint a < 0")
    case True
    show ?thesis
    proof (cases "sint b < 0")
      case bneg: True
      with True eq have "decimal (nat (- sint a)) = decimal (nat (- sint b))"
        by (simp add: show_long_def)
      then have "nat (- sint a) = nat (- sint b)" by (rule decimal_inj)
      with True bneg show ?thesis by simp
    next
      case False
      with True eq show ?thesis using decimal_no_minus [of "nat (sint b)"]
        by (simp add: show_long_def) metis
    qed
  next
    case False
    show ?thesis
    proof (cases "sint b < 0")
      case True
      with False eq show ?thesis using decimal_no_minus [of "nat (sint a)"]
        by (simp add: show_long_def)
    next
      case bpos: False
      with False eq have "decimal (nat (sint a)) = decimal (nat (sint b))"
        by (simp add: show_long_def)
      then have "nat (sint a) = nat (sint b)" by (rule decimal_inj)
      with False bpos show ?thesis by simp
    qed
  qed
  then show "a = b" by (rule signed_word_eqI)
qed


lemma sint_succ:
  fixes w :: "64 word"
  assumes "sint w < 2 ^ 63 - 1"
  shows "sint (w + 1) = sint w + 1"
proof -
  have lo: "- (2 ^ 63) \<le> sint w" using sint_ge [of w] by simp
  have "sint (w + 1) = signed_take_bit 63 (sint w + 1)"
    by (simp add: sint_word_ariths)
  also from lo assms have "\<dots> = sint w + 1"
    by (intro signed_take_bit_int_eq_self) simp_all
  finally show ?thesis .
qed

lemma map_insert_new:
  "k \<notin> fst ` set m \<Longrightarrow> set (map_insert k v m) = insert (k, v) (set m)"
proof (induction m)
  case Nil
  show ?case by simp
next
  case (Cons a m)
  obtain k' v' where a: "a = (k', v')" by (cases a)
  from Cons.prems a have "k \<noteq> k'" and "k \<notin> fst ` set m" by auto
  with Cons.IH a show ?case by auto
qed
lemma sint_add_of_nat:
  fixes w :: "64 word"
  shows "sint w + int k < 2 ^ 63 \<Longrightarrow> sint (w + of_nat k) = sint w + int k"
proof (induction k)
  case 0
  show ?case by simp
next
  case (Suc k)
  then have ih: "sint (w + of_nat k) = sint w + int k" by simp
  with Suc.prems have "sint (w + of_nat k) < 2 ^ 63 - 1" by simp
  then have "sint (w + of_nat k + 1) = sint (w + of_nat k) + 1" by (rule sint_succ)
  with ih show ?case by (simp add: ac_simps)
qed

lemma free_suffix_found:
  "k < fuel \<Longrightarrow> (\<forall>j<k. taken (n + 1 + of_nat j)) \<Longrightarrow> \<not> taken (n + 1 + of_nat k)
   \<Longrightarrow> free_suffix fuel taken n = Some (n + 1 + of_nat k)"
proof (induction k arbitrary: fuel n)
  case 0
  then obtain f where "fuel = Suc f" by (cases fuel) auto
  with 0 show ?case by simp
next
  case (Suc k)
  then obtain f where f: "fuel = Suc f" by (cases fuel) auto
  have shift: "n + 1 + of_nat (Suc i) = n + 1 + 1 + of_nat i" for i
    by (simp add: ac_simps)
  from Suc.prems(2) have "taken (n + 1 + of_nat 0)" by blast
  then have first: "taken (n + 1)" by simp
  from Suc.prems(1) f have "k < f" by simp
  moreover have "\<forall>j<k. taken (n + 1 + 1 + of_nat j)"
  proof (intro allI impI)
    fix j assume "j < k"
    then have "Suc j < Suc k" by simp
    with Suc.prems(2) have "taken (n + 1 + of_nat (Suc j))" by blast
    then show "taken (n + 1 + 1 + of_nat j)" unfolding shift .
  qed
  moreover from Suc.prems(3) have "\<not> taken (n + 1 + 1 + of_nat k)" unfolding shift .
  ultimately have "free_suffix f taken (n + 1) = Some (n + 1 + 1 + of_nat k)"
    by (rule Suc.IH)
  with f first show ?case by (simp only: free_suffix.simps shift if_True)
qed

lemma free_suffix_Some:
  "free_suffix fuel taken n = Some c
   \<Longrightarrow> \<exists>k<fuel. c = n + 1 + of_nat k \<and> (\<forall>j<k. taken (n + 1 + of_nat j)) \<and> \<not> taken c"
proof (induction fuel arbitrary: n)
  case 0
  then show ?case by simp
next
  case (Suc fuel)
  show ?case
  proof (cases "taken (n + 1)")
    case False
    with Suc.prems have "c = n + 1" by simp
    with False have "c = n + 1 + of_nat 0 \<and> (\<forall>j<0. taken (n + 1 + of_nat j)) \<and> \<not> taken c"
      by simp
    then show ?thesis by blast
  next
    case True
    have shift: "n + 1 + of_nat (Suc i) = n + 1 + 1 + of_nat i" for i
      by (simp add: ac_simps)
    from True Suc.prems have "free_suffix fuel taken (n + 1) = Some c" by simp
    from Suc.IH [OF this] obtain k where k: "k < fuel" "c = n + 1 + 1 + of_nat k"
      and tk: "\<forall>j<k. taken (n + 1 + 1 + of_nat j)" and fr: "\<not> taken c"
      by blast
    have "\<forall>j<Suc k. taken (n + 1 + of_nat j)"
    proof (intro allI impI)
      fix j assume j: "j < Suc k"
      show "taken (n + 1 + of_nat j)"
      proof (cases j)
        case 0
        with True show ?thesis by simp
      next
        case (Suc i)
        with j tk have "taken (n + 1 + 1 + of_nat i)" by simp
        then have "taken (n + 1 + of_nat (Suc i))" unfolding shift .
        with Suc show ?thesis by simp
      qed
    qed
    moreover from k have "Suc k < Suc fuel" by simp
    moreover from k have "c = n + 1 + of_nat (Suc k)" unfolding shift by simp
    ultimately show ?thesis using fr by blast
  qed
qed

lemma word64_of_nat_inj:
  assumes "j < 2 ^ 64" and "k < 2 ^ 64" and "(of_nat j :: 64 word) = of_nat k"
  shows "j = k"
proof -
  from assms(3) have "take_bit 64 j = take_bit 64 k"
    by (simp add: word_of_nat_eq_iff)
  with assms(1,2) show ?thesis by (simp add: take_bit_nat_eq_self)
qed

lemma free_number_exists:
  assumes "length its < 2 ^ 64"
  shows "\<exists>k\<le>length its. base @ show_long (n + 1 + of_nat k) \<notin> fst ` set its"
proof (rule ccontr)
  let ?f = "\<lambda>k. base @ show_long (n + 1 + of_nat k)"
  assume "\<not> ?thesis"
  then have sub: "?f ` {..length its} \<subseteq> fst ` set its" by auto
  have "inj_on ?f {..length its}"
  proof (rule inj_onI)
    fix j k assume j: "j \<in> {..length its}" and k: "k \<in> {..length its}" and eq: "?f j = ?f k"
    from eq have "show_long (n + 1 + of_nat j) = show_long (n + 1 + of_nat k)" by simp
    then have "n + 1 + of_nat j = n + 1 + of_nat k" by (rule show_long_inj)
    then have "(of_nat j :: 64 word) = of_nat k" by simp
    moreover from j k assms have "j < 2 ^ 64" and "k < 2 ^ 64" by simp_all
    ultimately show "j = k" by (rule word64_of_nat_inj [rotated 2])
  qed
  then have "card (?f ` {..length its}) = Suc (length its)" by (simp add: card_image)
  moreover from sub have "card (?f ` {..length its}) \<le> card (fst ` set its)"
    by (intro card_mono) simp_all
  moreover have "card (fst ` set its) \<le> card (set its)" by (intro card_image_le) simp
  moreover have "card (set its) \<le> length its" by (rule card_length)
  ultimately show False by simp
qed

lemma first_free_number:
  assumes "length its < 2 ^ 64"
  shows "\<exists>k\<le>length its.
           (\<forall>j<k. base @ show_long (n + 1 + of_nat j) \<in> fst ` set its)
           \<and> base @ show_long (n + 1 + of_nat k) \<notin> fst ` set its
           \<and> free_suffix (2 ^ 64) (\<lambda>c. base @ show_long c \<in> fst ` set its) n
               = Some (n + 1 + of_nat k)"
proof -
  let ?free = "\<lambda>k. base @ show_long (n + 1 + of_nat k) \<notin> fst ` set its"
  from free_number_exists [OF assms] obtain k0 where k0: "k0 \<le> length its" "?free k0"
    by blast
  define k where "k = (LEAST k. ?free k)"
  from k0(2) have fr: "?free k" unfolding k_def by (rule LeastI)
  from k0(2) have "k \<le> k0" unfolding k_def by (rule Least_le)
  with k0(1) have le: "k \<le> length its" by simp
  have tk: "\<forall>j<k. \<not> ?free j"
    unfolding k_def by (auto dest: not_less_Least)
  from le assms have "k < 2 ^ 64" by simp
  then have "free_suffix (2 ^ 64) (\<lambda>c. base @ show_long c \<in> fst ` set its) n
             = Some (n + 1 + of_nat k)"
    using tk fr by (intro free_suffix_found) simp_all
  with le tk fr show ?thesis by blast
qed

lemma length_map_insert_new:
  "k \<notin> fst ` set m \<Longrightarrow> length (map_insert k v m) = Suc (length m)"
proof (induction m)
  case Nil
  show ?case by simp
next
  case (Cons a m)
  obtain k' v' where a: "a = (k', v')" by (cases a)
  from Cons.prems a have "k \<noteq> k'" and "k \<notin> fst ` set m" by auto
  with Cons.IH a show ?case by simp
qed

lemma first_free_bound:
  assumes "free_suffix (2 ^ 64) (\<lambda>c. base @ show_long c \<in> fst ` set its) n = Some c"
  shows "base @ show_long c \<notin> fst ` set its"
    and "\<exists>k\<le>length its. c = n + 1 + of_nat k
           \<and> (\<forall>j<k. base @ show_long (n + 1 + of_nat j) \<in> fst ` set its)"
proof -
  from free_suffix_Some [OF assms] obtain k where k: "k < 2 ^ 64" "c = n + 1 + of_nat k"
    and tk: "\<forall>j<k. base @ show_long (n + 1 + of_nat j) \<in> fst ` set its"
    and fr: "base @ show_long c \<notin> fst ` set its"
    by blast
  from fr show "base @ show_long c \<notin> fst ` set its" .
  have "k \<le> length its"
  proof (cases "length its < 2 ^ 64")
    case True
    from free_number_exists [OF True, of base n] obtain k0 where "k0 \<le> length its"
      and "base @ show_long (n + 1 + of_nat k0) \<notin> fst ` set its" by blast
    with tk show ?thesis by (metis le_trans not_le_imp_less)
  next
    case False
    with k(1) show ?thesis by simp
  qed
  with k(2) tk
  show "\<exists>k\<le>length its. c = n + 1 + of_nat k
           \<and> (\<forall>j<k. base @ show_long (n + 1 + of_nat j) \<in> fst ` set its)"
    by blast
qed

lemma attachItem_Inr:
  assumes "attachItem this item (h, E) = Some (Inr (h', E'))"
  obtains it final c where "h item = Some it" and "env it = None"
    and "final \<notin> fst ` set (items E)"
    and "h' = h(item \<mapsto> it\<lparr>unique_id := final, env := Some this\<rparr>)"
    and "E' = E\<lparr>last_id := c, items := map_insert final item (items E),
                 emitted := emitted E @ [ItemAdded item]\<rparr>"
    and "ends_with_slash (unique_id it) \<Longrightarrow>
           final = envPrefix E @ unique_id it @ show_long c
           \<and> (\<exists>k\<le>length (items E). c = last_id E + 1 + of_nat k
                \<and> (\<forall>j<k. envPrefix E @ unique_id it @ show_long (last_id E + 1 + of_nat j)
                            \<in> fst ` set (items E)))"
    and "\<not> ends_with_slash (unique_id it) \<Longrightarrow>
           final = envPrefix E @ unique_id it \<and> c = last_id E"
proof (cases "h item")
  case None
  with assms show ?thesis by (simp add: attachItem_def)
next
  case (Some it)
  with assms have e: "env it = None"
    by (simp add: attachItem_def split: if_splits)
  show ?thesis
  proof (cases "ends_with_slash (unique_id it)")
    case True
    let ?taken = "\<lambda>c. (envPrefix E @ unique_id it) @ show_long c \<in> fst ` set (items E)"
    from assms Some e True obtain c where
      fs: "free_suffix (2 ^ 64) ?taken (last_id E) = Some c"
      and h': "h' = h(item \<mapsto> it\<lparr>unique_id := envPrefix E @ unique_id it @ show_long c,
                                   env := Some this\<rparr>)"
      and E': "E' = E\<lparr>last_id := c,
                      items := map_insert (envPrefix E @ unique_id it @ show_long c) item (items E),
                      emitted := emitted E @ [ItemAdded item]\<rparr>"
      by (auto simp: attachItem_def split: option.splits)
    from first_free_bound [OF fs]
    have "envPrefix E @ unique_id it @ show_long c \<notin> fst ` set (items E)"
      and "\<exists>k\<le>length (items E). c = last_id E + 1 + of_nat k
             \<and> (\<forall>j<k. envPrefix E @ unique_id it @ show_long (last_id E + 1 + of_nat j)
                         \<in> fst ` set (items E))"
      by simp_all
    with Some e h' E' True show ?thesis
      by (intro that [of it "envPrefix E @ unique_id it @ show_long c" c]) simp_all
  next
    case False
    with assms Some e
    have "envPrefix E @ unique_id it \<notin> fst ` set (items E)"
      and "h' = h(item \<mapsto> it\<lparr>unique_id := envPrefix E @ unique_id it, env := Some this\<rparr>)"
      and "E' = E\<lparr>last_id := last_id E,
                   items := map_insert (envPrefix E @ unique_id it) item (items E),
                   emitted := emitted E @ [ItemAdded item]\<rparr>"
      by (simp_all add: attachItem_def split: if_splits)
    with Some e False show ?thesis
      by (intro that [of it "envPrefix E @ unique_id it" "last_id E"]) simp_all
  qed
qed

lemma attachItem_step:
  assumes "attachItem this p (h, E) = Some (Inr (h', E'))"
  shows "envPrefix E' = envPrefix E"
    and "set (items E) \<subseteq> set (items E')"
    and "length (items E') = Suc (length (items E))"
    and "\<exists>d\<le>1 + length (items E). last_id E' = last_id E + of_nat d"
    and "h q = Some x \<Longrightarrow> env x \<noteq> None \<Longrightarrow> h' q = Some x"
proof -
  from assms obtain it final c where p: "h p = Some it" and free: "env it = None"
    and fresh: "final \<notin> fst ` set (items E)"
    and h': "h' = h(p \<mapsto> it\<lparr>unique_id := final, env := Some this\<rparr>)"
    and E': "E' = E\<lparr>last_id := c, items := map_insert final p (items E),
                    emitted := emitted E @ [ItemAdded p]\<rparr>"
    and num: "ends_with_slash (unique_id it) \<Longrightarrow>
                \<exists>k\<le>length (items E). c = last_id E + 1 + of_nat k"
    and ver: "\<not> ends_with_slash (unique_id it) \<Longrightarrow> c = last_id E"
    by (rule attachItem_Inr) blast
  from E' show "envPrefix E' = envPrefix E" by simp
  from E' fresh show "set (items E) \<subseteq> set (items E')" by (auto simp: map_insert_new)
  from E' fresh show "length (items E') = Suc (length (items E))"
    by (simp add: length_map_insert_new)
  show "\<exists>d\<le>1 + length (items E). last_id E' = last_id E + of_nat d"
  proof (cases "ends_with_slash (unique_id it)")
    case True
    from num [OF True] obtain k where "k \<le> length (items E)" "c = last_id E + 1 + of_nat k"
      by blast
    with E' have "Suc k \<le> 1 + length (items E) \<and> last_id E' = last_id E + of_nat (Suc k)"
      by (simp add: ac_simps)
    then show ?thesis by blast
  next
    case False
    from ver [OF False] E' have "0 \<le> 1 + length (items E) \<and> last_id E' = last_id E + of_nat 0"
      by simp
    then show ?thesis by blast
  qed
  assume "h q = Some x" and "env x \<noteq> None"
  with p free have "q \<noteq> p" by auto
  with h' \<open>h q = Some x\<close> show "h' q = Some x" by simp
qed

lemma attachItems_steps:
  assumes "attachItems this ps (h, E) = Some (Inr (h', E'))"
  shows "envPrefix E' = envPrefix E
         \<and> set (items E) \<subseteq> set (items E')
         \<and> length (items E') = length (items E) + length ps
         \<and> (\<exists>d\<le>length ps * (1 + length (items E')). last_id E' = last_id E + of_nat d)
         \<and> (\<forall>q x. h q = Some x \<and> env x \<noteq> None \<longrightarrow> h' q = Some x)"
  using assms
proof (induction ps arbitrary: h E)
  case Nil
  then show ?case by simp
next
  case (Cons p ps)
  from Cons.prems obtain h1 E1 where one: "attachItem this p (h, E) = Some (Inr (h1, E1))"
    and rest: "attachItems this ps (h1, E1) = Some (Inr (h', E'))"
    by (auto split: option.splits sum.splits)
  from Cons.IH [OF rest] obtain d2 where pre: "envPrefix E' = envPrefix E1"
    and sub: "set (items E1) \<subseteq> set (items E')"
    and len: "length (items E') = length (items E1) + length ps"
    and d2: "d2 \<le> length ps * (1 + length (items E'))" "last_id E' = last_id E1 + of_nat d2"
    and keep: "\<forall>q x. h1 q = Some x \<and> env x \<noteq> None \<longrightarrow> h' q = Some x"
    by blast
  from attachItem_step(4) [OF one] obtain d1 where
    d1: "d1 \<le> 1 + length (items E)" "last_id E1 = last_id E + of_nat d1" by blast
  have len1: "length (items E1) = Suc (length (items E))" by (rule attachItem_step(3) [OF one])
  from d1(1) len len1 have "d1 \<le> 1 + length (items E')" by simp
  with d2(1) have "d1 + d2 \<le> length (p # ps) * (1 + length (items E'))" by simp
  moreover from d1(2) d2(2) have "last_id E' = last_id E + of_nat (d1 + d2)"
    by (simp add: ac_simps)
  ultimately have cnt: "\<exists>d\<le>length (p # ps) * (1 + length (items E')).
                          last_id E' = last_id E + of_nat d" by blast
  from attachItem_step(1) [OF one] pre have "envPrefix E' = envPrefix E" by simp
  moreover from attachItem_step(2) [OF one] sub have "set (items E) \<subseteq> set (items E')" by blast
  moreover from len len1 have "length (items E') = length (items E) + length (p # ps)" by simp
  moreover from attachItem_step(5) [OF one] keep
  have "\<forall>q x. h q = Some x \<and> env x \<noteq> None \<longrightarrow> h' q = Some x" by blast
  ultimately show ?case using cnt by blast
qed

lemma attachItem_numbered:
  assumes "h a = Some ia" and "env ia = None" and "ends_with_slash (unique_id ia)"
    and "length (items E) < 2 ^ 64"
  shows "\<exists>k\<le>length (items E).
           (\<forall>j<k. envPrefix E @ unique_id ia @ show_long (last_id E + 1 + of_nat j)
                     \<in> fst ` set (items E))
           \<and> envPrefix E @ unique_id ia @ show_long (last_id E + 1 + of_nat k)
               \<notin> fst ` set (items E)
           \<and> attachItem this a (h, E)
               = Some (Inr (h(a \<mapsto> ia\<lparr>unique_id := envPrefix E @ unique_id ia
                                         @ show_long (last_id E + 1 + of_nat k),
                                       env := Some this\<rparr>),
                            E\<lparr>last_id := last_id E + 1 + of_nat k,
                              items := map_insert (envPrefix E @ unique_id ia
                                         @ show_long (last_id E + 1 + of_nat k)) a (items E),
                              emitted := emitted E @ [ItemAdded a]\<rparr>))
           \<and> (sint (last_id E) + 1 + int (length (items E)) < 2 ^ 63
                \<longrightarrow> sint (last_id E) < sint (last_id E + 1 + of_nat k))"
proof -
  from first_free_number [OF assms(4), of "envPrefix E @ unique_id ia" "last_id E"]
  obtain k where k: "k \<le> length (items E)"
    and tk: "\<forall>j<k. envPrefix E @ unique_id ia @ show_long (last_id E + 1 + of_nat j)
                      \<in> fst ` set (items E)"
    and fr: "envPrefix E @ unique_id ia @ show_long (last_id E + 1 + of_nat k)
               \<notin> fst ` set (items E)"
    and fs: "free_suffix (2 ^ 64)
               (\<lambda>c. envPrefix E @ unique_id ia @ show_long c \<in> fst ` set (items E))
               (last_id E) = Some (last_id E + 1 + of_nat k)"
    by auto
  from assms(1-3) fs
  have att: "attachItem this a (h, E)
               = Some (Inr (h(a \<mapsto> ia\<lparr>unique_id := envPrefix E @ unique_id ia
                                         @ show_long (last_id E + 1 + of_nat k),
                                       env := Some this\<rparr>),
                            E\<lparr>last_id := last_id E + 1 + of_nat k,
                              items := map_insert (envPrefix E @ unique_id ia
                                         @ show_long (last_id E + 1 + of_nat k)) a (items E),
                              emitted := emitted E @ [ItemAdded a]\<rparr>))"
    by (simp add: attachItem_def)
  have grow: "sint (last_id E) + 1 + int (length (items E)) < 2 ^ 63
              \<longrightarrow> sint (last_id E) < sint (last_id E + 1 + of_nat k)"
  proof
    assume "sint (last_id E) + 1 + int (length (items E)) < 2 ^ 63"
    with k have "sint (last_id E) + int (Suc k) < 2 ^ 63" by simp
    then have s: "sint (last_id E + of_nat (Suc k)) = sint (last_id E) + int (Suc k)"
      by (rule sint_add_of_nat)
    have eq: "last_id E + 1 + of_nat k = last_id E + of_nat (Suc k)"
      by (simp add: ac_simps)
    show "sint (last_id E) < sint (last_id E + 1 + of_nat k)"
      unfolding eq s by simp
  qed
  from k tk fr att grow show ?thesis by blast
qed

text \<open>
  C4. Attaching an unattached item whose id ends in \<open>/\<close> returns without an exception
  (the id-to-item map having fewer than \<open>2 ^ 64\<close> entries): the item gets the id made
  of the environment's prefix, the caller's id and the decimal form of the first number
  after the counter for which that id is free, so the final id was not in the map
  before; the counter takes that number, a greater one as long as it does not overflow.
  When, after any run of further attachments, a second item with the same caller's id is
  attached, its suffix is a different string, and the greater number as long as the
  counter does not overflow.
\<close>

theorem attachItem_numeric_suffix:
  "(h a = Some ia \<and> env ia = None \<and> ends_with_slash (unique_id ia)
      \<and> length (items E) < 2 ^ 64
    \<longrightarrow> (\<exists>k\<le>length (items E).
           (\<forall>j<k. envPrefix E @ unique_id ia @ show_long (last_id E + 1 + of_nat j)
                     \<in> fst ` set (items E))
           \<and> envPrefix E @ unique_id ia @ show_long (last_id E + 1 + of_nat k)
               \<notin> fst ` set (items E)
           \<and> attachItem this a (h, E)
               = Some (Inr (h(a \<mapsto> ia\<lparr>unique_id := envPrefix E @ unique_id ia
                                         @ show_long (last_id E + 1 + of_nat k),
                                       env := Some this\<rparr>),
                            E\<lparr>last_id := last_id E + 1 + of_nat k,
                              items := map_insert (envPrefix E @ unique_id ia
                                         @ show_long (last_id E + 1 + of_nat k)) a (items E),
                              emitted := emitted E @ [ItemAdded a]\<rparr>))
           \<and> (sint (last_id E) + 1 + int (length (items E)) < 2 ^ 63
                \<longrightarrow> sint (last_id E) < sint (last_id E + 1 + of_nat k))))
   \<and> (h a = Some ia \<and> ends_with_slash (unique_id ia)
      \<and> attachItem this a (h, E) = Some (Inr (h1, E1))
      \<and> attachItems this ps (h1, E1) = Some (Inr (h1', E1'))
      \<and> h1' b = Some ib \<and> env ib = None \<and> unique_id ib = unique_id ia
      \<and> length (items E1') < 2 ^ 64
    \<longrightarrow> (\<exists>h2 E2.
           attachItem this b (h1', E1') = Some (Inr (h2, E2))
           \<and> map_option unique_id (h2 a)
               = Some (envPrefix E @ unique_id ia @ show_long (last_id E1))
           \<and> map_option unique_id (h2 b)
               = Some (envPrefix E @ unique_id ia @ show_long (last_id E2))
           \<and> show_long (last_id E1) \<noteq> show_long (last_id E2)
           \<and> (sint (last_id E1) + (int (length ps) + 1) * (1 + int (length (items E1')))
                  < 2 ^ 63
                \<longrightarrow> sint (last_id E1) < sint (last_id E2))))"
proof (intro conjI impI)
  assume "h a = Some ia \<and> env ia = None \<and> ends_with_slash (unique_id ia)
          \<and> length (items E) < 2 ^ 64"
  then have "h a = Some ia" "env ia = None" "ends_with_slash (unique_id ia)"
    "length (items E) < 2 ^ 64" by simp_all
  then show "\<exists>k\<le>length (items E).
           (\<forall>j<k. envPrefix E @ unique_id ia @ show_long (last_id E + 1 + of_nat j)
                     \<in> fst ` set (items E))
           \<and> envPrefix E @ unique_id ia @ show_long (last_id E + 1 + of_nat k)
               \<notin> fst ` set (items E)
           \<and> attachItem this a (h, E)
               = Some (Inr (h(a \<mapsto> ia\<lparr>unique_id := envPrefix E @ unique_id ia
                                         @ show_long (last_id E + 1 + of_nat k),
                                       env := Some this\<rparr>),
                            E\<lparr>last_id := last_id E + 1 + of_nat k,
                              items := map_insert (envPrefix E @ unique_id ia
                                         @ show_long (last_id E + 1 + of_nat k)) a (items E),
                              emitted := emitted E @ [ItemAdded a]\<rparr>))
           \<and> (sint (last_id E) + 1 + int (length (items E)) < 2 ^ 63
                \<longrightarrow> sint (last_id E) < sint (last_id E + 1 + of_nat k))"
    by (rule attachItem_numbered)
next
  assume B: "h a = Some ia \<and> ends_with_slash (unique_id ia)
      \<and> attachItem this a (h, E) = Some (Inr (h1, E1))
      \<and> attachItems this ps (h1, E1) = Some (Inr (h1', E1'))
      \<and> h1' b = Some ib \<and> env ib = None \<and> unique_id ib = unique_id ia
      \<and> length (items E1') < 2 ^ 64"
  then have ia: "h a = Some ia" and sl: "ends_with_slash (unique_id ia)"
    and att: "attachItem this a (h, E) = Some (Inr (h1, E1))"
    and run: "attachItems this ps (h1, E1) = Some (Inr (h1', E1'))"
    and ib: "h1' b = Some ib" and free: "env ib = None"
    and same: "unique_id ib = unique_id ia"
    and len: "length (items E1') < 2 ^ 64" by simp_all
  let ?base = "envPrefix E @ unique_id ia"
  let ?id1 = "envPrefix E @ unique_id ia @ show_long (last_id E1)"
  from att obtain it final c where "h a = Some it"
    and fresh1: "final \<notin> fst ` set (items E)"
    and h1: "h1 = h(a \<mapsto> it\<lparr>unique_id := final, env := Some this\<rparr>)"
    and E1: "E1 = E\<lparr>last_id := c, items := map_insert final a (items E),
                    emitted := emitted E @ [ItemAdded a]\<rparr>"
    and num: "ends_with_slash (unique_id it) \<Longrightarrow>
                final = envPrefix E @ unique_id it @ show_long c"
    by (rule attachItem_Inr) blast
  with ia sl have it: "it = ia" and final: "final = envPrefix E @ unique_id ia @ show_long c"
    by simp_all
  from E1 have c: "last_id E1 = c" and pre1: "envPrefix E1 = envPrefix E" by simp_all
  from h1 it final c have a1: "h1 a = Some (ia\<lparr>unique_id := ?id1, env := Some this\<rparr>)"
    by simp
  from E1 fresh1 final c have in1: "?id1 \<in> fst ` set (items E1)"
    by (simp add: map_insert_keys)
  from attachItems_steps [OF run] obtain d where pre: "envPrefix E1' = envPrefix E1"
    and sub: "set (items E1) \<subseteq> set (items E1')"
    and d: "d \<le> length ps * (1 + length (items E1'))" "last_id E1' = last_id E1 + of_nat d"
    and keep: "\<forall>q x. h1 q = Some x \<and> env x \<noteq> None \<longrightarrow> h1' q = Some x"
    by blast
  from keep a1 have a1': "h1' a = Some (ia\<lparr>unique_id := ?id1, env := Some this\<rparr>)" by simp
  from a1' ib free have ne: "b \<noteq> a" by auto
  from in1 sub have in1': "?id1 \<in> fst ` set (items E1')" by auto
  from sl same have slb: "ends_with_slash (unique_id ib)" by simp
  from attachItem_numbered [where h = h1' and a = b and ia = ib and E = E1' and this = this,
      OF ib free slb len]
  obtain k where k: "k \<le> length (items E1')"
    and fr: "envPrefix E1' @ unique_id ib @ show_long (last_id E1' + 1 + of_nat k)
               \<notin> fst ` set (items E1')"
    and att2: "attachItem this b (h1', E1')
               = Some (Inr (h1'(b \<mapsto> ib\<lparr>unique_id := envPrefix E1' @ unique_id ib
                                         @ show_long (last_id E1' + 1 + of_nat k),
                                       env := Some this\<rparr>),
                            E1'\<lparr>last_id := last_id E1' + 1 + of_nat k,
                              items := map_insert (envPrefix E1' @ unique_id ib
                                         @ show_long (last_id E1' + 1 + of_nat k)) b (items E1'),
                              emitted := emitted E1' @ [ItemAdded b]\<rparr>))"
    by blast
  let ?n2 = "last_id E1' + 1 + of_nat k"
  let ?h2 = "h1'(b \<mapsto> ib\<lparr>unique_id := envPrefix E1' @ unique_id ib @ show_long ?n2,
                           env := Some this\<rparr>)"
  let ?E2 = "E1'\<lparr>last_id := ?n2,
                 items := map_insert (envPrefix E1' @ unique_id ib @ show_long ?n2) b (items E1'),
                 emitted := emitted E1' @ [ItemAdded b]\<rparr>"
  have base: "envPrefix E1' @ unique_id ib = ?base" by (simp add: pre pre1 same)
  have ida: "map_option unique_id (?h2 a) = Some ?id1" using a1' ne by simp
  have idb: "map_option unique_id (?h2 b)
             = Some (envPrefix E @ unique_id ia @ show_long (last_id ?E2))"
    by (simp add: pre pre1 same)
  have differ: "show_long (last_id E1) \<noteq> show_long (last_id ?E2)"
  proof
    assume "show_long (last_id E1) = show_long (last_id ?E2)"
    then have "?id1 = envPrefix E1' @ unique_id ib @ show_long ?n2"
      by (simp add: pre pre1 same)
    with in1' fr show False by simp
  qed
  have grow: "sint (last_id E1) + (int (length ps) + 1) * (1 + int (length (items E1')))
                < 2 ^ 63
              \<longrightarrow> sint (last_id E1) < sint (last_id ?E2)"
  proof
    assume nov: "sint (last_id E1) + (int (length ps) + 1) * (1 + int (length (items E1')))
                   < 2 ^ 63"
    have n2: "last_id ?E2 = last_id E1 + of_nat (d + Suc k)"
      by (simp add: d(2) ac_simps)
    have lt: "sint (last_id E1) < sint (last_id E1 + of_nat (d + Suc k))"
      if "sint (last_id E1 + of_nat (d + Suc k)) = sint (last_id E1) + int (d + Suc k)"
      unfolding that by simp
    from d(1) k have "d + Suc k \<le> (length ps + 1) * (1 + length (items E1'))" by simp
    then have "int (d + Suc k) \<le> int ((length ps + 1) * (1 + length (items E1')))"
      by (rule iffD2 [OF of_nat_le_iff])
    then have "int (d + Suc k) \<le> (int (length ps) + 1) * (1 + int (length (items E1')))"
      by (simp only: of_nat_mult of_nat_add of_nat_1)
    with nov have "sint (last_id E1) + int (d + Suc k) < 2 ^ 63" by simp
    then have "sint (last_id E1 + of_nat (d + Suc k)) = sint (last_id E1) + int (d + Suc k)"
      by (rule sint_add_of_nat)
    then have "sint (last_id E1) < sint (last_id E1 + of_nat (d + Suc k))" by (rule lt)
    then show "sint (last_id E1) < sint (last_id ?E2)" unfolding n2 .
  qed
  from att2 ida idb differ grow
  show "\<exists>h2 E2.
           attachItem this b (h1', E1') = Some (Inr (h2, E2))
           \<and> map_option unique_id (h2 a)
               = Some (envPrefix E @ unique_id ia @ show_long (last_id E1))
           \<and> map_option unique_id (h2 b)
               = Some (envPrefix E @ unique_id ia @ show_long (last_id E2))
           \<and> show_long (last_id E1) \<noteq> show_long (last_id E2)
           \<and> (sint (last_id E1) + (int (length ps) + 1) * (1 + int (length (items E1')))
                  < 2 ^ 63
                \<longrightarrow> sint (last_id E1) < sint (last_id E2))"
    by blast
qed

lemma show_long_examples: "show_long 1 = ''1''" "show_long 2 = ''2''" "show_long 3 = ''3''"
  by code_simp+

theorem attachItem_numeric_suffix_witness:
  "ex_objects 1 = Some (ex_item ''foo/'' None Layer_class)
   \<and> length (items ex_env) < 2 ^ 64
   \<and> attachItem 0 1 (ex_objects, ex_env) = Some (Inr (ex_objects1, ex_env1))
   \<and> attachItems 0 [3] (ex_objects1, ex_env1) = Some (Inr (ex_objects1g, ex_env1g))
   \<and> attachItem 0 2 (ex_objects1g, ex_env1g) = Some (Inr (ex_objects2, ex_env2))
   \<and> map_option unique_id (ex_objects2 1) = Some ''/foo/2''
   \<and> map_option unique_id (ex_objects2 2) = Some ''/foo/3''
   \<and> show_long (last_id ex_env1) \<noteq> show_long (last_id ex_env2)
   \<and> sint (last_id ex_env1) < sint (last_id ex_env2)"
proof -
  let ?foo = "ex_item ''foo/'' None Layer_class"
  have ia: "ex_objects 1 = Some ?foo" and free: "env ?foo = None"
    and sl: "ends_with_slash (unique_id ?foo)"
    and ib: "ex_objects1g 2 = Some ?foo"
    by (simp_all add: ex_objects1g_def ex_objects1_def ex_objects_def ex_item_def
        ends_with_slash_def)
  have len: "length (items ex_env) < 2 ^ 64" and len1: "length (items ex_env1g) < 2 ^ 64"
    by (simp_all add: ex_env_def ex_env1g_def)
  \<comment> \<open>the first attachment: the number 1 is taken, 2 is free\<close>
  let ?P = "\<lambda>j. envPrefix ex_env @ unique_id ?foo @ show_long (last_id ex_env + 1 + of_nat j)
                  \<in> fst ` set (items ex_env)"
  have P0: "?P 0" and nP1: "\<not> ?P 1"
    by (simp_all add: ex_env_def ex_item_def show_long_examples)
  from attachItem_numeric_suffix
    [where h = ex_objects and a = 1 and ia = ?foo and E = ex_env and this = 0]
    ia free sl len
  obtain k where tk: "\<forall>j<k. ?P j" and fr: "\<not> ?P k"
    and att: "attachItem 0 1 (ex_objects, ex_env)
               = Some (Inr (ex_objects(1 \<mapsto> ?foo\<lparr>unique_id := envPrefix ex_env @ unique_id ?foo
                                         @ show_long (last_id ex_env + 1 + of_nat k),
                                       env := Some 0\<rparr>),
                            ex_env\<lparr>last_id := last_id ex_env + 1 + of_nat k,
                              items := map_insert (envPrefix ex_env @ unique_id ?foo
                                         @ show_long (last_id ex_env + 1 + of_nat k)) 1
                                         (items ex_env),
                              emitted := emitted ex_env @ [ItemAdded 1]\<rparr>))"
    by blast
  have k1: "k = 1"
  proof (rule ccontr)
    assume "k \<noteq> 1"
    then consider "k = 0" | "1 < k" by linarith
    then show False
    proof cases
      case 1
      with fr P0 show False by simp
    next
      case 2
      with tk nP1 show False by blast
    qed
  qed
  from att have a1: "attachItem 0 1 (ex_objects, ex_env) = Some (Inr (ex_objects1, ex_env1))"
    unfolding k1
    by (simp add: ex_objects1_def ex_env1_def ex_env_def ex_item_def show_long_examples)
  \<comment> \<open>the map in between\<close>
  have run: "attachItems 0 [3] (ex_objects1, ex_env1) = Some (Inr (ex_objects1g, ex_env1g))"
    by (simp add: attachItem_def ex_objects1g_def ex_env1g_def ex_objects1_def ex_env1_def
        ex_objects_def ex_env_def ex_item_def ends_with_slash_def)
  \<comment> \<open>the second attachment: the number 3 is free\<close>
  let ?Q = "\<lambda>j. envPrefix ex_env1g @ unique_id ?foo
                  @ show_long (last_id ex_env1g + 1 + of_nat j)
                  \<in> fst ` set (items ex_env1g)"
  have nQ0: "\<not> ?Q 0"
    by (simp add: ex_env1g_def ex_env_def ex_item_def show_long_examples)
  from attachItem_numeric_suffix
    [where h = ex_objects1g and a = 2 and ia = ?foo and E = ex_env1g and this = 0]
    ib free sl len1
  obtain k' where tk': "\<forall>j<k'. ?Q j"
    and att': "attachItem 0 2 (ex_objects1g, ex_env1g)
               = Some (Inr (ex_objects1g(2 \<mapsto> ?foo\<lparr>unique_id := envPrefix ex_env1g
                                         @ unique_id ?foo
                                         @ show_long (last_id ex_env1g + 1 + of_nat k'),
                                       env := Some 0\<rparr>),
                            ex_env1g\<lparr>last_id := last_id ex_env1g + 1 + of_nat k',
                              items := map_insert (envPrefix ex_env1g @ unique_id ?foo
                                         @ show_long (last_id ex_env1g + 1 + of_nat k')) 2
                                         (items ex_env1g),
                              emitted := emitted ex_env1g @ [ItemAdded 2]\<rparr>))"
    by blast
  have k0: "k' = 0"
  proof (rule ccontr)
    assume "k' \<noteq> 0"
    then have "0 < k'" by simp
    with tk' have "?Q 0" by blast
    with nQ0 show False by blast
  qed
  from att' have a2: "attachItem 0 2 (ex_objects1g, ex_env1g) = Some (Inr (ex_objects2, ex_env2))"
    unfolding k0
    by (simp add: ex_objects2_def ex_env2_def ex_env1g_def ex_env_def ex_item_def
        show_long_examples)
  \<comment> \<open>the two suffixes\<close>
  have nov: "sint (last_id ex_env1) + (int (length [3::nat]) + 1)
               * (1 + int (length (items ex_env1g))) < 2 ^ 63"
    by (simp add: ex_env1_def ex_env1g_def)
  from attachItem_numeric_suffix
    [where h = ex_objects and a = 1 and ia = ?foo and E = ex_env and this = 0
       and ?h1.0 = ex_objects1 and ?E1.0 = ex_env1 and ps = "[3]"
       and h1' = ex_objects1g and E1' = ex_env1g and b = 2 and ib = ?foo]
    ia sl a1 run ib free len1
  obtain h2 E2 where "attachItem 0 2 (ex_objects1g, ex_env1g) = Some (Inr (h2, E2))"
    and differ: "show_long (last_id ex_env1) \<noteq> show_long (last_id E2)"
    and grow: "sint (last_id ex_env1) + (int (length [3::nat]) + 1)
                 * (1 + int (length (items ex_env1g))) < 2 ^ 63
               \<longrightarrow> sint (last_id ex_env1) < sint (last_id E2)"
    by blast
  with a2 have E2: "E2 = ex_env2" by simp
  have ids: "map_option unique_id (ex_objects2 1) = Some ''/foo/2''"
    "map_option unique_id (ex_objects2 2) = Some ''/foo/3''"
    by (simp_all add: ex_objects2_def ex_objects1g_def ex_objects1_def ex_item_def)
  from ia len a1 run a2 ids differ grow nov E2 show ?thesis by simp
qed





end
